theory Spec2Isabelle
  imports Complex_Main "HOL-Library.Multiset"
begin

section \<open>Data model\<close>

text \<open>
  The detection engine is \<^verbatim>\<open>backend/src/detection.js\<close>.  A second variant of
  the same module is also part of the repository (its file name is not known); its
  functions carry the suffix \<open>_alt\<close> below.

  JavaScript numbers are IEEE doubles.  They are modelled as real numbers: every
  double is a value of the model and the arithmetic of the model is exact, where the
  source rounds each operation to the nearest double.  The two differ only where a
  computed number meets a threshold to the last binary place (the double sum
  \<^verbatim>\<open>0.4 + 0.2 + 0.1\<close> lies just above the double \<^verbatim>\<open>0.7\<close>, the exact sum does not); at
  the concrete inputs used below the double computation of the source takes the same
  branches.  Image dimensions and scan positions are integers, channel values are
  naturals below 256.
\<close>

record bbox =
  bbox_x :: real
  bbox_y :: real
  bbox_width :: real
  bbox_height :: real

text \<open>
  A detection object \<^verbatim>\<open>{label, confidence, color?, bbox}\<close>.  The window scanners for
  helmets and vests attach a \<^verbatim>\<open>color\<close>; the person and full-kit scanners do not.
\<close>

record detection =
  label :: string
  confidence :: real
  color :: "string option"
  bbox :: bbox

section \<open>Overlap of two boxes (\<^verbatim>\<open>calculateOverlap\<close>)\<close>

definition calculateOverlap :: "bbox \<Rightarrow> bbox \<Rightarrow> real" where
  "calculateOverlap bbox1 bbox2 =
     (let x1 = max (bbox_x bbox1) (bbox_x bbox2);
          y1 = max (bbox_y bbox1) (bbox_y bbox2);
          x2 = min (bbox_x bbox1 + bbox_width bbox1) (bbox_x bbox2 + bbox_width bbox2);
          y2 = min (bbox_y bbox1 + bbox_height bbox1) (bbox_y bbox2 + bbox_height bbox2)
      in if x2 \<le> x1 \<or> y2 \<le> y1 then 0
         else
           let intersection = (x2 - x1) * (y2 - y1);
               area1 = bbox_width bbox1 * bbox_height bbox1;
               area2 = bbox_width bbox2 * bbox_height bbox2;
               union = area1 + area2 - intersection
           in intersection / union)"

section \<open>The Merger of \<^verbatim>\<open>detection.js\<close> (\<^verbatim>\<open>mergeOverlappingDetections\<close>)\<close>

text \<open>
  The source walks the array by index and records consumed indices in the set
  \<^verbatim>\<open>used\<close>.  The model pairs every array slot with its membership in \<^verbatim>\<open>used\<close>.
\<close>

type_synonym slot = "detection \<times> bool"

definition overlaps :: "real \<Rightarrow> detection \<Rightarrow> detection \<Rightarrow> bool" where
  \<comment> \<open>the test \<^verbatim>\<open>overlap > overlapThreshold && current.label === detections[j].label\<close>\<close>
  "overlaps overlapThreshold current d \<longleftrightarrow>
     calculateOverlap (bbox current) (bbox d) > overlapThreshold \<and> label current = label d"

text \<open>
  The inner loop \<^verbatim>\<open>for (j = i + 1; ...)\<close> over the slots after \<open>i\<close>: it returns the
  detections pushed onto \<^verbatim>\<open>overlapping\<close> (in index order) and the slots with the new
  \<^verbatim>\<open>used\<close> marks.
\<close>

fun innerLoop :: "real \<Rightarrow> detection \<Rightarrow> slot list \<Rightarrow> detection list \<times> slot list" where
  "innerLoop thr current [] = ([], [])"
| "innerLoop thr current ((d, u) # rest) =
     (let (ov, rest') = innerLoop thr current rest
      in if u then (ov, (d, u) # rest')
         else if overlaps thr current d then (d # ov, (d, True) # rest')
         else (ov, (d, u) # rest'))"

definition better :: "detection \<Rightarrow> detection \<Rightarrow> detection" where
  \<comment> \<open>the reducer \<^verbatim>\<open>(best, det) => det.confidence > best.confidence ? det : best\<close>\<close>
  "better best det = (if confidence det > confidence best then det else best)"

function outerLoop :: "real \<Rightarrow> slot list \<Rightarrow> detection list" where
  "outerLoop thr [] = []"
| "outerLoop thr ((current, u) # rest) =
     (if u then outerLoop thr rest
      else
        let (ov, rest') = innerLoop thr current rest;
            overlapping = current # ov
        in (if length overlapping > 1 then foldl better current ov else current)
           # outerLoop thr rest')"
  by pat_completeness auto
termination
proof (relation "measure (\<lambda>(thr, slots). length slots)")
  show "wf (measure (\<lambda>(thr, slots). length slots))" by simp
next
  fix thr :: real and current :: detection and u :: bool and rest :: "slot list"
  show "((thr, rest), (thr, (current, u) # rest)) \<in> measure (\<lambda>(thr, slots). length slots)"
    by simp
next
  fix thr :: real and current u rest xa ov rest'
  assume "xa = innerLoop thr current rest" "(ov, rest') = xa"
  then have r: "rest' = snd (innerLoop thr current rest)"
    by (metis snd_conv)
  have "length (snd (innerLoop thr current slots)) = length slots" for slots
    by (induction slots) (auto split: prod.splits)
  with r show "((thr, rest'), (thr, (current, u) # rest)) \<in> measure (\<lambda>(thr, slots). length slots)"
    by simp
qed

definition mergeOverlappingDetections :: "detection list \<Rightarrow> real \<Rightarrow> detection list" where
  "mergeOverlappingDetections detections overlapThreshold =
     (if length detections \<le> 1 then detections
      else outerLoop overlapThreshold (map (\<lambda>d. (d, False)) detections))"

section \<open>The final assembly of \<^verbatim>\<open>detection.js\<close> (\<^verbatim>\<open>filterAndMergeDetections\<close>)\<close>

text \<open>
  \<^verbatim>\<open>byLabel\<close> is a plain object used as a dictionary from label to array.
  \<^verbatim>\<open>Object.entries\<close> lists string keys in insertion order, so the dictionary is an
  association list that keeps the order in which the labels were first seen.  (The
  labels of the module are \<^verbatim>\<open>person\<close>, \<^verbatim>\<open>helmet\<close> and \<^verbatim>\<open>vest\<close>; a label that
  is an array index or names a member of \<^verbatim>\<open>Object.prototype\<close> does not occur.)
\<close>

fun pushByLabel :: "detection \<Rightarrow> (string \<times> detection list) list \<Rightarrow> (string \<times> detection list) list" where
  "pushByLabel d [] = [(label d, [d])]"
| "pushByLabel d ((l, ds) # groups) =
     (if l = label d then (l, ds @ [d]) # groups else (l, ds) # pushByLabel d groups)"

definition groupByLabel :: "detection list \<Rightarrow> (string \<times> detection list) list" where
  "groupByLabel ds = foldl (\<lambda>groups d. pushByLabel d groups) [] ds"

definition sortByConfidenceDesc :: "detection list \<Rightarrow> detection list" where
  \<comment> \<open>\<^verbatim>\<open>.sort((a, b) => b.confidence - a.confidence)\<close>; \<^verbatim>\<open>Array.prototype.sort\<close> is stable\<close>
  "sortByConfidenceDesc ds = sort_key (\<lambda>d. - confidence d) ds"

definition filterAndMergeDetections :: "detection list \<Rightarrow> detection list" where
  "filterAndMergeDetections detections =
     (let filtered = filter (\<lambda>d. confidence d > 6/10) detections;
          byLabel = groupByLabel filtered;
          merged = concat (map (\<lambda>(l, labelDetections).
                      mergeOverlappingDetections labelDetections (3/10)) byLabel)
      in sortByConfidenceDesc merged)"


section \<open>Pixels, regions and colour tables of \<^verbatim>\<open>detection.js\<close>\<close>

record pixel =
  pixel_r :: nat
  pixel_g :: nat
  pixel_b :: nat
  pixel_a :: nat

record rgb =
  rgb_r :: int
  rgb_g :: int
  rgb_b :: int

record colorRange =
  range_r :: "int \<times> int"
  range_g :: "int \<times> int"
  range_b :: "int \<times> int"

definition PPE_COLORS_helmet :: "(string \<times> colorRange) list" where
  \<comment> \<open>the entries of \<^verbatim>\<open>PPE_COLORS.helmet\<close>, in the order \<^verbatim>\<open>Object.entries\<close> lists them\<close>
  "PPE_COLORS_helmet =
     [(''green'',    \<lparr>range_r = (20, 120),  range_g = (80, 180),  range_b = (20, 100)\<rparr>),
      (''yellow'',   \<lparr>range_r = (180, 255), range_g = (180, 255), range_b = (0, 100)\<rparr>),
      (''darkBlue'', \<lparr>range_r = (0, 80),    range_g = (0, 80),    range_b = (80, 180)\<rparr>),
      (''orange'',   \<lparr>range_r = (200, 255), range_g = (100, 180), range_b = (0, 80)\<rparr>)]"

definition PPE_COLORS_helmet_darkBlue :: colorRange where
  "PPE_COLORS_helmet_darkBlue = \<lparr>range_r = (0, 80), range_g = (0, 80), range_b = (80, 180)\<rparr>"

definition PPE_COLORS_vest_highVis :: colorRange where
  "PPE_COLORS_vest_highVis = \<lparr>range_r = (150, 255), range_g = (150, 255), range_b = (0, 120)\<rparr>"

definition isColorInRange :: "rgb \<Rightarrow> colorRange \<Rightarrow> bool" where
  "isColorInRange c rng \<longleftrightarrow>
     rgb_r c \<ge> fst (range_r rng) \<and> rgb_r c \<le> snd (range_r rng) \<and>
     rgb_g c \<ge> fst (range_g rng) \<and> rgb_g c \<le> snd (range_g rng) \<and>
     rgb_b c \<ge> fst (range_b rng) \<and> rgb_b c \<le> snd (range_b rng)"

text \<open>
  A \<^verbatim>\<open>for (let v = start; v < stop; v += stride)\<close> loop visits these values.  Every
  stride of the source is a positive literal; the guard on the stride makes the
  function total.
\<close>

function loopFrom :: "int \<Rightarrow> int \<Rightarrow> int \<Rightarrow> int list" where
  "loopFrom v stop stride =
     (if v < stop \<and> 0 < stride then v # loopFrom (v + stride) stop stride else [])"
  by pat_completeness auto
termination
  by (relation "measure (\<lambda>(v, stop, stride). nat (stop - v))") auto

text \<open>
  \<^verbatim>\<open>extractImageRegion\<close>: \<open>data\<close> is the RGBA byte array of the canvas.  All callers
  pass \<open>x \<ge> 0\<close> and \<open>y \<ge> 0\<close>, so the index is never negative.
\<close>

definition extractImageRegion ::
  "nat list \<Rightarrow> int \<Rightarrow> int \<Rightarrow> int \<Rightarrow> int \<Rightarrow> int \<Rightarrow> int \<Rightarrow> pixel list" where
  "extractImageRegion data width height x y w h =
     (let endX = min (x + w) width;
          endY = min (y + h) height
      in concat (map (\<lambda>py. concat (map (\<lambda>px.
           let idx = nat ((py * width + px) * 4)
           in if idx + 3 < length data
              then [\<lparr>pixel_r = data ! idx, pixel_g = data ! (idx + 1),
                     pixel_b = data ! (idx + 2), pixel_a = data ! (idx + 3)\<rparr>]
              else [])
           [x..endX - 1])) [y..endY - 1]))"

record colorAnalysis =
  dominant :: rgb
  brightness :: real

definition Math_round :: "real \<Rightarrow> int" where
  \<comment> \<open>\<^verbatim>\<open>Math.round\<close>: the nearest integer, halves rounded up\<close>
  "Math_round v = \<lfloor>v + 1/2\<rfloor>"

definition analyzeColors :: "pixel list \<Rightarrow> colorAnalysis" where
  "analyzeColors pixels =
     (if length pixels = 0
      then \<lparr>dominant = \<lparr>rgb_r = 0, rgb_g = 0, rgb_b = 0\<rparr>, brightness = 0\<rparr>
      else
        let totalR = sum_list (map pixel_r pixels);
            totalG = sum_list (map pixel_g pixels);
            totalB = sum_list (map pixel_b pixels);
            brightnessSum = sum_list (map (\<lambda>p. real (pixel_r p + pixel_g p + pixel_b p) / 3) pixels);
            count = length pixels
        in \<lparr>dominant = \<lparr>rgb_r = Math_round (real totalR / real count),
                          rgb_g = Math_round (real totalG / real count),
                          rgb_b = Math_round (real totalB / real count)\<rparr>,
            brightness = brightnessSum / real count / 255\<rparr>)"

record shapeAnalysis =
  roundness :: real
  uniformity :: real
  edgeDensity :: real

definition slice :: "'a list \<Rightarrow> nat \<Rightarrow> nat \<Rightarrow> 'a list" where
  \<comment> \<open>\<^verbatim>\<open>Array.prototype.slice(start, end)\<close> for \<open>0 \<le> start\<close> and \<open>0 \<le> end\<close>\<close>
  "slice xs start stop = take (stop - start) (drop start xs)"

text \<open>
  \<^verbatim>\<open>analyzeShape\<close> is called on non-empty regions only.  For a region of one pixel
  the centre slice is empty and \<^verbatim>\<open>centerCoverage\<close> is \<^verbatim>\<open>NaN\<close>, which compares false.
\<close>

definition analyzeShape :: "pixel list \<Rightarrow> int \<Rightarrow> shapeAnalysis" where
  "analyzeShape pixels blockSize =
     (let nonZeroPixels = filter (\<lambda>p. pixel_r p + pixel_g p + pixel_b p > 30) pixels;
          coverage = real (length nonZeroPixels) / real (length pixels);
          centerPixels = slice pixels (nat \<lfloor>real (length pixels) * 0.3\<rfloor>)
                                      (nat \<lfloor>real (length pixels) * 0.7\<rfloor>);
          centerCoverage =
            real (length (filter (\<lambda>p. pixel_r p + pixel_g p + pixel_b p > 30) centerPixels))
              / real (length centerPixels)
      in \<lparr>roundness = (if centerPixels \<noteq> [] \<and> centerCoverage > coverage * 0.8 then 0.8 else 0.4),
          uniformity = coverage,
          edgeDensity = (if coverage > 0.6 then 0.7 else 0.3)\<rparr>)"

record patternAnalysis =
  hasReflectiveStripes :: bool
  hasHorizontalStripes :: bool
  stripeCount :: nat

text \<open>
  \<^verbatim>\<open>analyzePattern\<close> cuts the region into rows of \<^verbatim>\<open>Math.sqrt(pixels.length)\<close> pixels;
  the loop variable is a fraction when the length is no square, and \<^verbatim>\<open>slice\<close>
  truncates it.  A region has at least one pixel here, so a row is never empty.
\<close>

function rowsFrom :: "pixel list \<Rightarrow> real \<Rightarrow> real \<Rightarrow> real list" where
  "rowsFrom pixels pixelsPerRow i =
     (if i < real (length pixels) \<and> 0 < pixelsPerRow
      then
        (let row = slice pixels (nat \<lfloor>i\<rfloor>) (nat \<lfloor>i + pixelsPerRow\<rfloor>);
             avgBrightness =
               sum_list (map (\<lambda>p. real (pixel_r p + pixel_g p + pixel_b p) / 3) row)
                 / real (length row)
         in avgBrightness # rowsFrom pixels pixelsPerRow (i + pixelsPerRow))
      else [])"
  by pat_completeness auto
termination
proof (relation "measure (\<lambda>(pixels, pixelsPerRow, i). nat \<lceil>(real (length pixels) - i) / pixelsPerRow\<rceil>)")
  show "wf (measure (\<lambda>(pixels, pixelsPerRow, i). nat \<lceil>(real (length pixels) - i) / pixelsPerRow\<rceil>))"
    by simp
next
  fix pixels :: "pixel list" and pixelsPerRow i :: real and xa :: "pixel list"
  assume a: "i < real (length pixels) \<and> 0 < pixelsPerRow"
  let ?n = "real (length pixels)"
  have e: "(?n - (i + pixelsPerRow)) / pixelsPerRow = (?n - i) / pixelsPerRow - 1"
    using a by (simp add: field_simps)
  have "0 < (?n - i) / pixelsPerRow" using a by simp
  then have "0 < \<lceil>(?n - i) / pixelsPerRow\<rceil>" by linarith
  then have "nat \<lceil>(?n - (i + pixelsPerRow)) / pixelsPerRow\<rceil> < nat \<lceil>(?n - i) / pixelsPerRow\<rceil>"
    unfolding e by linarith
  then show "((pixels, pixelsPerRow, i + pixelsPerRow), (pixels, pixelsPerRow, i))
       \<in> measure (\<lambda>(pixels, pixelsPerRow, i). nat \<lceil>(real (length pixels) - i) / pixelsPerRow\<rceil>)"
    by simp
qed

definition analyzePattern :: "pixel list \<Rightarrow> int \<Rightarrow> patternAnalysis" where
  "analyzePattern pixels blockSize =
     (let pixelsPerRow = sqrt (real (length pixels));
          rows = rowsFrom pixels pixelsPerRow 0;
          stripePatterns = length (filter (\<lambda>i.
              rows ! i > rows ! (i - 1) + 50 \<and> rows ! i > rows ! (i + 1) + 50)
              [1..<length rows - 1])
      in \<lparr>hasReflectiveStripes = (stripePatterns \<ge> 2),
          hasHorizontalStripes = (stripePatterns \<ge> 1),
          stripeCount = stripePatterns\<rparr>)"

section \<open>Class scorers of \<^verbatim>\<open>detection.js\<close>\<close>

record helmetAnalysis =
  isHelmet :: bool
  helmet_confidence :: real
  helmet_color :: "string option"

definition analyzeHelmetRegion :: "pixel list \<Rightarrow> int \<Rightarrow> helmetAnalysis" where
  "analyzeHelmetRegion regionPixels blockSize =
     (if length regionPixels = 0
      then \<lparr>isHelmet = False, helmet_confidence = 0, helmet_color = None\<rparr>
      else
        let colorAnalysis = analyzeColors regionPixels;
            shapeAnalysis = analyzeShape regionPixels blockSize;
            hit = find (\<lambda>(colorName, colorRange). isColorInRange (dominant colorAnalysis) colorRange)
                    PPE_COLORS_helmet;
            c0 = (case hit of None \<Rightarrow> 0 | Some (colorName, colorRange) \<Rightarrow> 0 + 0.4);
            detectedColor = (case hit of None \<Rightarrow> ''unknown'' | Some (colorName, colorRange) \<Rightarrow> colorName);
            c1 = (if roundness shapeAnalysis > 0.6 then c0 + 0.3 else c0);
            c2 = (if uniformity shapeAnalysis > 0.7 then c1 + 0.2 else c1);
            c3 = (if edgeDensity shapeAnalysis > 0.5 then c2 + 0.1 else c2)
        in \<lparr>isHelmet = (c3 > 0.7), helmet_confidence = min c3 0.95,
            helmet_color = Some detectedColor\<rparr>)"

record vestAnalysis =
  isVest :: bool
  vest_confidence :: real
  vest_color :: "string option"

definition analyzeVestRegion :: "pixel list \<Rightarrow> int \<Rightarrow> vestAnalysis" where
  "analyzeVestRegion regionPixels blockSize =
     (if length regionPixels = 0
      then \<lparr>isVest = False, vest_confidence = 0, vest_color = None\<rparr>
      else
        let colorAnalysis = analyzeColors regionPixels;
            patternAnalysis = analyzePattern regionPixels blockSize;
            highVis = isColorInRange (dominant colorAnalysis) PPE_COLORS_vest_highVis;
            c0 = (if highVis then 0 + 0.4 else 0);
            detectedColor = (if highVis then ''high-vis'' else ''unknown'');
            c1 = (if hasReflectiveStripes patternAnalysis then c0 + 0.3 else c0);
            c2 = (if hasHorizontalStripes patternAnalysis then c1 + 0.2 else c1);
            c3 = (if brightness colorAnalysis > 0.6 then c2 + 0.1 else c2)
        in \<lparr>isVest = (c3 > 0.65), vest_confidence = min c3 0.95,
            vest_color = Some detectedColor\<rparr>)"

definition analyzeSkinTone :: "pixel list \<Rightarrow> real" where
  "analyzeSkinTone pixels =
     (if length pixels = 0 then 0
      else
        let skinPixels = length (filter (\<lambda>p.
              pixel_r p > 95 \<and> pixel_g p > 40 \<and> pixel_b p > 20 \<and>
              pixel_r p > pixel_g p \<and> pixel_r p > pixel_b p \<and>
              int (pixel_r p) - int (pixel_g p) > 15) pixels)
        in real skinPixels / real (length pixels))"

record uniformityAnalysis =
  uniformity_score :: real
  uniformity_color :: rgb

definition analyzeUniformity :: "pixel list \<Rightarrow> uniformityAnalysis" where
  "analyzeUniformity pixels =
     (if length pixels = 0
      then \<lparr>uniformity_score = 0, uniformity_color = \<lparr>rgb_r = 0, rgb_g = 0, rgb_b = 0\<rparr>\<rparr>
      else
        let avgColor = dominant (analyzeColors pixels);
            variance = sum_list (map (\<lambda>p.
                \<bar>int (pixel_r p) - rgb_r avgColor\<bar> + \<bar>int (pixel_g p) - rgb_g avgColor\<bar>
                  + \<bar>int (pixel_b p) - rgb_b avgColor\<bar>) pixels);
            avgVariance = real_of_int variance / real (length pixels);
            uniformityScore = max 0 (1 - avgVariance / 150)
        in \<lparr>uniformity_score = uniformityScore, uniformity_color = avgColor\<rparr>)"

section \<open>Window scanners of \<^verbatim>\<open>detection.js\<close>\<close>

record region =
  region_x :: int
  region_y :: int
  region_width :: int
  region_height :: int
  region_confidence :: real

definition findPersonRegions :: "nat list \<Rightarrow> int \<Rightarrow> int \<Rightarrow> region list" where
  "findPersonRegions data width height =
     (let blockSize = 64; stride = 32
      in concat (map (\<lambda>y. concat (map (\<lambda>x.
           let region = extractImageRegion data width height x y blockSize blockSize;
               skinToneScore = analyzeSkinTone region
           in if skinToneScore > 0.6
              then [\<lparr>region_x = x, region_y = y, region_width = blockSize,
                     region_height = blockSize, region_confidence = skinToneScore\<rparr>]
              else [])
           (loopFrom 0 (width - blockSize) stride)))
         (loopFrom 0 (height - blockSize) stride)))"

definition detectPerson :: "nat list \<Rightarrow> int \<Rightarrow> int \<Rightarrow> detection list" where
  "detectPerson data width height =
     (let personRegions = findPersonRegions data width height
      in concat (map (\<lambda>region.
           if region_confidence region > 0.6
           then [\<lparr>label = ''person'', confidence = region_confidence region, color = None,
                  bbox = \<lparr>bbox_x = real_of_int (region_x region) / real_of_int width,
                          bbox_y = real_of_int (region_y region) / real_of_int height,
                          bbox_width = real_of_int (region_width region) / real_of_int width,
                          bbox_height = real_of_int (region_height region) / real_of_int height\<rparr>\<rparr>]
           else []) personRegions))"

text \<open>The refined bounds are in pixel units; \<^verbatim>\<open>bbox\<close> serves as the record of the four numbers.\<close>

definition refineHelmetBounds :: "nat list \<Rightarrow> int \<Rightarrow> int \<Rightarrow> int \<Rightarrow> int \<Rightarrow> int \<Rightarrow> bbox" where
  "refineHelmetBounds data width height x y blockSize =
     (let expandedSize = real_of_int \<lfloor>real_of_int blockSize * 1.5\<rfloor>;
          startX = max 0 (real_of_int x - real_of_int blockSize * 0.25);
          startY = max 0 (real_of_int y - real_of_int blockSize * 0.25)
      in \<lparr>bbox_x = startX, bbox_y = startY,
          bbox_width = min expandedSize (real_of_int width - startX),
          bbox_height = min expandedSize (real_of_int height - startY)\<rparr>)"

definition refineVestBounds :: "nat list \<Rightarrow> int \<Rightarrow> int \<Rightarrow> int \<Rightarrow> int \<Rightarrow> int \<Rightarrow> bbox" where
  "refineVestBounds data width height x y blockSize =
     (let expandedWidth = real_of_int \<lfloor>real_of_int blockSize * 1.8\<rfloor>;
          expandedHeight = real_of_int \<lfloor>real_of_int blockSize * 1.2\<rfloor>;
          startX = max 0 (real_of_int x - real_of_int blockSize * 0.4);
          startY = max 0 (real_of_int y - real_of_int blockSize * 0.1)
      in \<lparr>bbox_x = startX, bbox_y = startY,
          bbox_width = min expandedWidth (real_of_int width - startX),
          bbox_height = min expandedHeight (real_of_int height - startY)\<rparr>)"

definition detectHelmets :: "nat list \<Rightarrow> int \<Rightarrow> int \<Rightarrow> detection list" where
  "detectHelmets data width height =
     (let searchHeight = \<lfloor>real_of_int height * 0.5\<rfloor>;
          blockSize = 32;
          stride = 16;
          detections = concat (map (\<lambda>y. concat (map (\<lambda>x.
            let region = extractImageRegion data width height x y blockSize blockSize;
                helmetAnalysis = analyzeHelmetRegion region blockSize
            in if isHelmet helmetAnalysis \<and> helmet_confidence helmetAnalysis > 0.7
               then
                 let refinedBounds = refineHelmetBounds data width height x y blockSize
                 in [\<lparr>label = ''helmet'', confidence = helmet_confidence helmetAnalysis,
                      color = helmet_color helmetAnalysis,
                      bbox = \<lparr>bbox_x = bbox_x refinedBounds / real_of_int width,
                              bbox_y = bbox_y refinedBounds / real_of_int height,
                              bbox_width = bbox_width refinedBounds / real_of_int width,
                              bbox_height = bbox_height refinedBounds / real_of_int height\<rparr>\<rparr>]
               else [])
            (loopFrom 0 (width - blockSize) stride)))
          (loopFrom 0 searchHeight stride))
      in mergeOverlappingDetections detections 0.3)"

definition detectVests :: "nat list \<Rightarrow> int \<Rightarrow> int \<Rightarrow> detection list" where
  "detectVests data width height =
     (let searchStartY = \<lfloor>real_of_int height * 0.2\<rfloor>;
          searchHeight = \<lfloor>real_of_int height * 0.6\<rfloor>;
          blockSize = 48;
          stride = 24;
          detections = concat (map (\<lambda>y. concat (map (\<lambda>x.
            let region = extractImageRegion data width height x y blockSize blockSize;
                vestAnalysis = analyzeVestRegion region blockSize
            in if isVest vestAnalysis \<and> vest_confidence vestAnalysis > 0.65
               then
                 let refinedBounds = refineVestBounds data width height x y blockSize
                 in [\<lparr>label = ''vest'', confidence = vest_confidence vestAnalysis,
                      color = vest_color vestAnalysis,
                      bbox = \<lparr>bbox_x = bbox_x refinedBounds / real_of_int width,
                              bbox_y = bbox_y refinedBounds / real_of_int height,
                              bbox_width = bbox_width refinedBounds / real_of_int width,
                              bbox_height = bbox_height refinedBounds / real_of_int height\<rparr>\<rparr>]
               else [])
            (loopFrom 0 (width - blockSize) stride)))
          (loopFrom searchStartY (searchStartY + searchHeight) stride))
      in mergeOverlappingDetections detections 0.4)"

record fullBodyRegion =
  full_x :: int
  full_y :: int
  full_width :: int
  full_height :: int
  full_confidence :: real
  hasHeadCovering :: bool
  hasBodyCovering :: bool
  headConfidence :: real
  bodyConfidence :: real
  headBbox :: bbox
  bodyBbox :: bbox

definition findFullBodyPPE :: "nat list \<Rightarrow> int \<Rightarrow> int \<Rightarrow> fullBodyRegion list" where
  "findFullBodyPPE data width height =
     (let largeBlockSize = 96; stride = 48
      in concat (map (\<lambda>y. concat (map (\<lambda>x.
           let region = extractImageRegion data width height x y largeBlockSize largeBlockSize;
               uniformity = analyzeUniformity region
           in if uniformity_score uniformity > 0.7
              then
                let c = uniformity_color uniformity;
                    isDarkBlue = isColorInRange c PPE_COLORS_helmet_darkBlue;
                    isLightBlue = (rgb_b c > rgb_r c \<and> rgb_b c > rgb_g c \<and> rgb_b c > 100)
                in if isDarkBlue \<or> isLightBlue
                   then [\<lparr>full_x = x, full_y = y, full_width = largeBlockSize,
                          full_height = largeBlockSize,
                          full_confidence = uniformity_score uniformity,
                          hasHeadCovering = (real_of_int y < real_of_int height * 0.3),
                          hasBodyCovering = (real_of_int y > real_of_int height * 0.2),
                          headConfidence = (if real_of_int y < real_of_int height * 0.3 then 0.8 else 0.3),
                          bodyConfidence = (if real_of_int y > real_of_int height * 0.2 then 0.8 else 0.3),
                          headBbox = \<lparr>bbox_x = real_of_int x / real_of_int width,
                                      bbox_y = real_of_int y / real_of_int height,
                                      bbox_width = real_of_int largeBlockSize / real_of_int width,
                                      bbox_height = (real_of_int largeBlockSize * 0.3) / real_of_int height\<rparr>,
                          bodyBbox = \<lparr>bbox_x = real_of_int x / real_of_int width,
                                      bbox_y = (real_of_int y + real_of_int largeBlockSize * 0.3) / real_of_int height,
                                      bbox_width = real_of_int largeBlockSize / real_of_int width,
                                      bbox_height = (real_of_int largeBlockSize * 0.7) / real_of_int height\<rparr>\<rparr>]
                   else []
              else [])
           (loopFrom 0 (width - largeBlockSize) stride)))
         (loopFrom 0 (height - largeBlockSize) stride)))"

definition detectFullPPE :: "nat list \<Rightarrow> int \<Rightarrow> int \<Rightarrow> detection list" where
  "detectFullPPE data width height =
     (let fullBodyRegions = findFullBodyPPE data width height
      in concat (map (\<lambda>region.
           if full_confidence region > 0.7 \<and> hasHeadCovering region \<and> hasBodyCovering region
           then [\<lparr>label = ''helmet'', confidence = headConfidence region, color = None,
                  bbox = headBbox region\<rparr>,
                 \<lparr>label = ''vest'', confidence = bodyConfidence region, color = None,
                  bbox = bodyBbox region\<rparr>]
           else []) fullBodyRegions))"

section \<open>The pipeline of \<^verbatim>\<open>detection.js\<close>\<close>

text \<open>
  What the module takes from its libraries: the size reported by \<^verbatim>\<open>sharp\<close>, the RGBA
  bytes that \<^verbatim>\<open>canvas\<close> rasterises (\<open>None\<close> when the call throws), the MD5 digest
  of \<^verbatim>\<open>crypto\<close> in hexadecimal, and the number-to-string conversion of the runtime
  (which \<^verbatim>\<open>toFixed\<close> falls back to from \<open>10\<^sup>2\<^sup>1\<close> on).
\<close>

record platform =
  sharp_metadata :: "string \<Rightarrow> (int \<times> int) option"
  canvas_getImageData :: "string \<Rightarrow> int \<Rightarrow> int \<Rightarrow> nat list option"
  md5_hex :: "string \<Rightarrow> string"
  number_toString :: "real \<Rightarrow> string"

definition detectInImageData :: "nat list \<Rightarrow> int \<Rightarrow> int \<Rightarrow> detection list" where
  \<comment> \<open>the \<^verbatim>\<open>try\<close> block of \<^verbatim>\<open>detectPPEObjects\<close> from \<^verbatim>\<open>imageData\<close> on\<close>
  "detectInImageData data width height =
     (let personDetections = detectPerson data width height;
          helmetDetections = detectHelmets data width height;
          vestDetections = detectVests data width height;
          fullPPEDetections = detectFullPPE data width height
      in filterAndMergeDetections
           (personDetections @ helmetDetections @ vestDetections @ fullPPEDetections))"

definition detectPPEObjects :: "platform \<Rightarrow> string \<Rightarrow> int \<Rightarrow> int \<Rightarrow> detection list" where
  "detectPPEObjects P imagePath width height =
     (case canvas_getImageData P imagePath width height of
        None \<Rightarrow> []
      | Some data \<Rightarrow> detectInImageData data width height)"

record analysis =
  hasHelmet :: bool
  hasHighVisVest :: bool
  hasFullPPE :: bool
  hasPerson :: bool
  detections :: "detection list"
  confidence_helmet :: real
  confidence_vest :: real
  confidence_person :: real
  image_width :: int
  image_height :: int

definition analyzeImageForPPE :: "platform \<Rightarrow> string \<Rightarrow> analysis" where
  "analyzeImageForPPE P imagePath =
     (case sharp_metadata P imagePath of
        None \<Rightarrow>
          \<lparr>hasHelmet = False, hasHighVisVest = False, hasFullPPE = False, hasPerson = False,
           detections = [], confidence_helmet = 0, confidence_vest = 0, confidence_person = 0,
           image_width = 800, image_height = 600\<rparr>
      | Some (width, height) \<Rightarrow>
          let ds = detectPPEObjects P imagePath width height;
              hasHelmet = list_ex (\<lambda>d. label d = ''helmet'') ds;
              hasVest = list_ex (\<lambda>d. label d = ''vest'') ds;
              hasPerson = list_ex (\<lambda>d. label d = ''person'') ds;
              maxOf = (\<lambda>l. Max (set (map confidence (filter (\<lambda>d. label d = l) ds))))
          in \<lparr>hasHelmet = hasHelmet, hasHighVisVest = hasVest,
              hasFullPPE = (hasHelmet \<and> hasVest), hasPerson = hasPerson,
              detections = ds,
              confidence_helmet = (if hasHelmet then maxOf ''helmet'' else 0),
              confidence_vest = (if hasVest then maxOf ''vest'' else 0),
              confidence_person = (if hasPerson then maxOf ''person'' else 0),
              image_width = width, image_height = height\<rparr>)"

definition detectPPE :: "platform \<Rightarrow> string \<Rightarrow> detection list" where
  "detectPPE P imagePath = detections (analyzeImageForPPE P imagePath)"

section \<open>The detection hash of \<^verbatim>\<open>detection.js\<close> (\<^verbatim>\<open>generateDetectionHash\<close>)\<close>

definition digitChar :: "nat \<Rightarrow> char" where
  "digitChar d = ''0123456789'' ! d"

fun natToString :: "nat \<Rightarrow> string" where
  "natToString n = (if n < 10 then [digitChar n] else natToString (n div 10) @ [digitChar (n mod 10)])"












section \<open>The second variant of the module\<close>

text \<open>
  The repository holds a second version of the detection module.  Where it defines a
  function of the same name as \<^verbatim>\<open>detection.js\<close>, the model adds \<open>_alt\<close>.
\<close>

subsection \<open>Its Merger: sort, walk, union\<close>

definition createMergedDetection :: "detection list \<Rightarrow> detection" where
  \<comment> \<open>called with at least two boxes\<close>
  "createMergedDetection boxes =
     (let best = hd boxes;
          minX = Min (set (map (\<lambda>d. bbox_x (bbox d)) boxes));
          minY = Min (set (map (\<lambda>d. bbox_y (bbox d)) boxes));
          maxX = Max (set (map (\<lambda>d. bbox_x (bbox d) + bbox_width (bbox d)) boxes));
          maxY = Max (set (map (\<lambda>d. bbox_y (bbox d) + bbox_height (bbox d)) boxes))
      in \<lparr>label = label best, confidence = min 0.98 (confidence best + 0.02), color = None,
          bbox = \<lparr>bbox_x = minX, bbox_y = minY,
                  bbox_width = maxX - minX, bbox_height = maxY - minY\<rparr>\<rparr>)"

function outerLoop_alt :: "real \<Rightarrow> slot list \<Rightarrow> detection list" where
  "outerLoop_alt thr [] = []"
| "outerLoop_alt thr ((current, u) # rest) =
     (if u then outerLoop_alt thr rest
      else
        let (ov, rest') = innerLoop thr current rest;
            overlapping = current # ov
        in (if length overlapping > 1 then createMergedDetection overlapping else current)
           # outerLoop_alt thr rest')"
  by pat_completeness auto
termination
proof (relation "measure (\<lambda>(thr, slots). length slots)")
  show "wf (measure (\<lambda>(thr, slots). length slots))" by simp
next
  fix thr :: real and current :: detection and u :: bool and rest :: "slot list"
  show "((thr, rest), (thr, (current, u) # rest)) \<in> measure (\<lambda>(thr, slots). length slots)"
    by simp
next
  fix thr :: real and current u rest xa ov rest'
  assume "xa = innerLoop thr current rest" "(ov, rest') = xa"
  then have r: "rest' = snd (innerLoop thr current rest)"
    by (metis snd_conv)
  have "length (snd (innerLoop thr current slots)) = length slots" for slots
    by (induction slots) (auto split: prod.splits)
  with r show "((thr, rest'), (thr, (current, u) # rest)) \<in> measure (\<lambda>(thr, slots). length slots)"
    by simp
qed

definition mergeOverlappingDetections_alt :: "detection list \<Rightarrow> real \<Rightarrow> detection list" where
  "mergeOverlappingDetections_alt ds threshold =
     (if length ds = 0 then []
      else outerLoop_alt threshold (map (\<lambda>d. (d, False)) (sortByConfidenceDesc ds)))"

subsection \<open>Its per-class limit and its \<^verbatim>\<open>detectPPE\<close>\<close>

definition maxPerClass :: "string \<Rightarrow> nat" where
  \<comment> \<open>\<^verbatim>\<open>maxPerClass[label] || 3\<close>\<close>
  "maxPerClass l =
     (if l = ''helmet'' then 2 else if l = ''vest'' then 2 else if l = ''person'' then 1 else 3)"

definition limitDetectionsPerClass :: "detection list \<Rightarrow> detection list" where
  "limitDetectionsPerClass ds =
     (let grouped = groupByLabel ds
      in concat (map (\<lambda>(l, classDetections).
           take (maxPerClass l) (sortByConfidenceDesc classDetections)) grouped))"

definition detectPPE_alt :: "analysis \<Rightarrow> detection list" where
  \<comment> \<open>from the result of \<^verbatim>\<open>analyzeImageForPPE\<close> on\<close>
  "detectPPE_alt a =
     (let limitedDetections = limitDetectionsPerClass (detections a)
      in map (\<lambda>d. d\<lparr>bbox :=
            \<lparr>bbox_x = bbox_x (bbox d) / real_of_int (image_width a),
             bbox_y = bbox_y (bbox d) / real_of_int (image_height a),
             bbox_width = bbox_width (bbox d) / real_of_int (image_width a),
             bbox_height = bbox_height (bbox d) / real_of_int (image_height a)\<rparr>\<rparr>)
           limitedDetections)"

subsection \<open>Its filename tier (\<^verbatim>\<open>fallbackDetection\<close>)\<close>

definition toLowerCase :: "string \<Rightarrow> string" where
  \<comment> \<open>on the ASCII letters; other bytes are kept\<close>
  "toLowerCase str = map (\<lambda>c.
     case map_of (zip ''ABCDEFGHIJKLMNOPQRSTUVWXYZ'' ''abcdefghijklmnopqrstuvwxyz'') c of
       Some l \<Rightarrow> l
     | None \<Rightarrow> c) str"

fun includes_str :: "string \<Rightarrow> string \<Rightarrow> bool" where
  "includes_str [] sub = (sub = [])"
| "includes_str (c # cs) sub = (take (length sub) (c # cs) = sub \<or> includes_str cs sub)"

definition fallbackDetection :: "string \<Rightarrow> int \<Rightarrow> int \<Rightarrow> detection list" where
  "fallbackDetection imagePath width height =
     (let filename = toLowerCase imagePath
      in (if includes_str filename ''helmet''
          then [\<lparr>label = ''helmet'', confidence = 0.75, color = None,
                 bbox = \<lparr>bbox_x = real_of_int width * 0.2, bbox_y = real_of_int height * 0.1,
                         bbox_width = real_of_int width * 0.6,
                         bbox_height = real_of_int height * 0.4\<rparr>\<rparr>]
          else [])
         @
         (if includes_str filename ''vest''
          then [\<lparr>label = ''vest'', confidence = 0.75, color = None,
                 bbox = \<lparr>bbox_x = real_of_int width * 0.1, bbox_y = real_of_int height * 0.3,
                         bbox_width = real_of_int width * 0.8,
                         bbox_height = real_of_int height * 0.5\<rparr>\<rparr>]
          else []))"

subsection \<open>Its helmet scorer\<close>




section \<open>Notions used to state the properties\<close>

definition countLabel :: "string \<Rightarrow> detection list \<Rightarrow> nat" where
  "countLabel l ds = length (filter (\<lambda>d. label d = l) ds)"

text \<open>The slots whose index is not in \<^verbatim>\<open>used\<close>.\<close>

definition unused :: "slot list \<Rightarrow> detection list" where
  "unused slots = map fst (filter (\<lambda>s. \<not> snd s) slots)"

text \<open>
  The overlap clusters of a candidate list: the head of what is left seeds a cluster,
  which takes the later candidates that pass the test against the seed; the walk goes
  on with the others.  A cluster is the array \<^verbatim>\<open>overlapping\<close> of one round of the
  outer loop.
\<close>

fun overlapClusters :: "real \<Rightarrow> detection list \<Rightarrow> detection list list" where
  "overlapClusters thr [] = []"
| "overlapClusters thr (current # rest) =
     (current # filter (overlaps thr current) rest)
       # overlapClusters thr (filter (\<lambda>d. \<not> overlaps thr current d) rest)"

definition bestOf :: "detection list \<Rightarrow> detection" where
  \<comment> \<open>\<^verbatim>\<open>overlapping.reduce(...)\<close>: the first member of highest confidence\<close>
  "bestOf cluster = foldl better (hd cluster) (tl cluster)"

text \<open>A detection inside the unit square, within the tolerance of the specification.\<close>

definition inRange :: "detection \<Rightarrow> bool" where
  "inRange d \<longleftrightarrow>
     0 \<le> confidence d \<and> confidence d \<le> 1 \<and>
     0 \<le> bbox_x (bbox d) \<and> bbox_x (bbox d) \<le> 1 \<and>
     0 \<le> bbox_y (bbox d) \<and> bbox_y (bbox d) \<le> 1 \<and>
     0 \<le> bbox_width (bbox d) \<and> bbox_width (bbox d) \<le> 1 \<and>
     0 \<le> bbox_height (bbox d) \<and> bbox_height (bbox d) \<le> 1 \<and>
     bbox_x (bbox d) + bbox_width (bbox d) \<le> 1.001 \<and>
     bbox_y (bbox d) + bbox_height (bbox d) \<le> 1.001"













section \<open>Concrete inputs\<close>

definition mkDetection :: "string \<Rightarrow> real \<Rightarrow> real \<Rightarrow> real \<Rightarrow> real \<Rightarrow> real \<Rightarrow> detection" where
  "mkDetection l c bx bt bw bh =
     \<lparr>label = l, confidence = c, color = None,
      bbox = \<lparr>bbox_x = bx, bbox_y = bt, bbox_width = bw, bbox_height = bh\<rparr>\<rparr>"

text \<open>
  Three helmets side by side in an image of 400 by 100 pixels: the refined boxes of the
  windows at \<open>x = 16\<close>, \<open>160\<close> and \<open>320\<close> in the top row.
\<close>

definition helmetLeft :: detection where
  "helmetLeft = mkDetection ''helmet'' 0.95 0.02 0 0.12 0.48"

definition helmetMiddle :: detection where
  "helmetMiddle = mkDetection ''helmet'' 0.8 0.38 0 0.12 0.48"

definition helmetRight :: detection where
  "helmetRight = mkDetection ''helmet'' 0.95 0.78 0 0.12 0.48"

text \<open>Two helmet boxes whose overlap is exactly 0.3: the unit square and its left 30 percent.\<close>

definition helmetWhole :: detection where
  "helmetWhole = mkDetection ''helmet'' 0.9 0 0 1 1"

definition helmetStrip :: detection where
  "helmetStrip = mkDetection ''helmet'' 0.8 0 0 0.3 1"

text \<open>
  A chain of three vest boxes of equal size: the first and the third overlap the second
  (overlap 1/3 each) and do not touch each other.
\<close>

definition vestA :: detection where
  "vestA = mkDetection ''vest'' 0.7 0 0 0.4 0.4"

definition vestB :: detection where
  "vestB = mkDetection ''vest'' 0.9 0.2 0 0.4 0.4"

definition vestC :: detection where
  "vestC = mkDetection ''vest'' 0.8 0.4 0 0.4 0.4"

definition personWide :: detection where
  "personWide = mkDetection ''person'' 0.65 0.1 0.1 0.5 0.5"

definition faint :: detection where
  "faint = mkDetection ''vest'' 0.6 0.5 0.5 0.2 0.2"

text \<open>
  Image data of one colour, and platforms.  On \<open>undecodable\<close>, \<^verbatim>\<open>sharp\<close> reads the
  size of the file and \<^verbatim>\<open>canvas\<close> fails to decode it; on \<open>unreadable\<close> \<^verbatim>\<open>sharp\<close>
  fails as well.  On \<open>yellowImage\<close> every file is a yellow image of 33 by 2 pixels,
  on \<open>navyImage\<close> a dark blue image of 129 by 2 pixels.  Their digest is a constant
  of 32 hexadecimal digits.
\<close>

definition uniformData :: "nat \<Rightarrow> pixel \<Rightarrow> nat list" where
  \<comment> \<open>the RGBA bytes of \<open>n\<close> pixels of one colour\<close>
  "uniformData n p = concat (replicate n [pixel_r p, pixel_g p, pixel_b p, pixel_a p])"

definition yellowPixel :: pixel where
  "yellowPixel = \<lparr>pixel_r = 255, pixel_g = 255, pixel_b = 0, pixel_a = 255\<rparr>"

definition navyPixel :: pixel where
  "navyPixel = \<lparr>pixel_r = 0, pixel_g = 0, pixel_b = 128, pixel_a = 255\<rparr>"

definition undecodable :: platform where
  "undecodable =
     \<lparr>sharp_metadata = (\<lambda>imagePath. Some (800, 600)),
      canvas_getImageData = (\<lambda>imagePath width height. None),
      md5_hex = (\<lambda>str. replicate 32 CHR ''0''),
      number_toString = (\<lambda>v. ''Infinity'')\<rparr>"

definition unreadable :: platform where
  "unreadable = undecodable\<lparr>sharp_metadata := (\<lambda>imagePath. None)\<rparr>"

definition yellowData :: "nat list" where
  "yellowData = uniformData 66 yellowPixel"

definition yellowImage :: platform where
  "yellowImage =
     \<lparr>sharp_metadata = (\<lambda>imagePath. Some (33, 2)),
      canvas_getImageData = (\<lambda>imagePath width height. Some yellowData),
      md5_hex = (\<lambda>str. replicate 32 CHR ''0''),
      number_toString = (\<lambda>v. ''Infinity'')\<rparr>"

definition navyData :: "nat list" where
  "navyData = uniformData 258 navyPixel"

definition navyImage :: platform where
  "navyImage =
     \<lparr>sharp_metadata = (\<lambda>imagePath. Some (129, 2)),
      canvas_getImageData = (\<lambda>imagePath width height. Some navyData),
      md5_hex = (\<lambda>str. replicate 32 CHR ''0''),
      number_toString = (\<lambda>v. ''Infinity'')\<rparr>"

definition yellowHelmet :: detection where
  \<comment> \<open>what the pipeline finds in the yellow image\<close>
  "yellowHelmet =
     \<lparr>label = ''helmet'', confidence = 0.95, color = Some ''yellow'',
      bbox = \<lparr>bbox_x = 0, bbox_y = 0, bbox_width = 1, bbox_height = 1\<rparr>\<rparr>"

definition navyHelmet :: "real \<Rightarrow> real \<Rightarrow> detection" where
  \<comment> \<open>a helmet box of the dark blue image, from its left edge and width in pixels\<close>
  "navyHelmet startX boxWidth =
     \<lparr>label = ''helmet'', confidence = 0.95, color = Some ''darkBlue'',
      bbox = \<lparr>bbox_x = startX / 129, bbox_y = 0, bbox_width = boxWidth / 129, bbox_height = 1\<rparr>\<rparr>"




definition fallbackAnalysis :: analysis where
  \<comment> \<open>an analysis whose detections come from the filename tier, for an image of 800 by 600\<close>
  "fallbackAnalysis =
     \<lparr>hasHelmet = True, hasHighVisVest = False, hasFullPPE = False, hasPerson = False,
      detections = fallbackDetection ''uploads/Helmet-Site.JPG'' 800 600,
      confidence_helmet = 0.75, confidence_vest = 0, confidence_person = 0,
      image_width = 800, image_height = 600\<rparr>"

section \<open>The walk of the Merger\<close>

lemma innerLoop_fst: "fst (innerLoop thr c rest) = filter (overlaps thr c) (unused rest)"
  by (induction rest) (auto simp: unused_def split: prod.splits)

lemma innerLoop_snd:
  "snd (innerLoop thr c rest) = map (\<lambda>(d, u). (d, u \<or> overlaps thr c d)) rest"
  by (induction rest) (auto split: prod.splits)

lemma innerLoop_unused:
  "unused (snd (innerLoop thr c rest)) = filter (\<lambda>d. \<not> overlaps thr c d) (unused rest)"
  by (induction rest) (auto simp: unused_def split: prod.splits)

lemma unused_fresh: "unused (map (\<lambda>d. (d, False)) ds) = ds"
  by (induction ds) (auto simp: unused_def)

lemma bestOf_Cons: "bestOf (c # ov) = foldl better c ov"
  by (simp add: bestOf_def)

lemma outerLoop_clusters: "outerLoop thr slots = map bestOf (overlapClusters thr (unused slots))"
proof (induction thr slots rule: outerLoop.induct)
  case (1 thr)
  show ?case by (simp add: unused_def)
next
  case (2 thr current u rest)
  show ?case
  proof (cases u)
    case True
    with 2 show ?thesis by (simp add: unused_def)
  next
    case False
    obtain ov rest' where ir: "innerLoop thr current rest = (ov, rest')"
      by (cases "innerLoop thr current rest")
    from ir have ov: "ov = filter (overlaps thr current) (unused rest)"
      using innerLoop_fst [of thr current rest] by simp
    from ir have r': "unused rest' = filter (\<lambda>d. \<not> overlaps thr current d) (unused rest)"
      using innerLoop_unused [of thr current rest] by simp
    have IH: "outerLoop thr rest' = map bestOf (overlapClusters thr (unused rest'))"
      using 2(2) [OF False ir [symmetric] refl] by simp
    have u: "unused ((current, u) # rest) = current # unused rest"
      using False by (simp add: unused_def)
    have "ov = [] \<Longrightarrow> foldl better current ov = current" by simp
    then show ?thesis
      using False ir IH ov r' u by (cases ov) (auto simp: Let_def bestOf_Cons)
  qed
qed

lemma merge_clusters:
  "mergeOverlappingDetections ds thr = map bestOf (overlapClusters thr ds)"
proof (cases ds)
  case Nil
  then show ?thesis by (simp add: mergeOverlappingDetections_def)
next
  case (Cons d ds')
  show ?thesis
  proof (cases ds')
    case Nil
    with Cons show ?thesis by (simp add: mergeOverlappingDetections_def bestOf_def)
  next
    case (Cons e es)
    then show ?thesis
      using \<open>ds = d # ds'\<close>
      by (simp only: mergeOverlappingDetections_def outerLoop_clusters unused_fresh) simp
  qed
qed

lemma foldl_better_mem: "foldl better c ov \<in> set (c # ov)"
proof (induction ov arbitrary: c)
  case Nil
  show ?case by simp
next
  case (Cons d ov)
  have "foldl better (better c d) ov \<in> set (better c d # ov)" by (rule Cons.IH)
  moreover have "better c d = c \<or> better c d = d" by (simp add: better_def)
  ultimately show ?case by auto
qed

lemma foldl_better_ge: "confidence c \<le> confidence (foldl better c ov)"
proof (induction ov arbitrary: c)
  case Nil
  show ?case by simp
next
  case (Cons d ov)
  have "confidence (better c d) \<le> confidence (foldl better (better c d) ov)" by (rule Cons.IH)
  moreover have "confidence c \<le> confidence (better c d)" by (simp add: better_def)
  ultimately show ?case by simp
qed

lemma foldl_better_max: "d \<in> set (c # ov) \<Longrightarrow> confidence d \<le> confidence (foldl better c ov)"
proof (induction ov arbitrary: c)
  case Nil
  then show ?case by simp
next
  case (Cons e ov)
  have ge: "confidence (better c e) \<le> confidence (foldl better (better c e) ov)"
    by (rule foldl_better_ge)
  from Cons.prems consider "d = c" | "d = e" | "d \<in> set ov" by auto
  then show ?case
  proof cases
    case 1
    have "confidence c \<le> confidence (better c e)" by (simp add: better_def)
    with ge 1 show ?thesis by simp
  next
    case 2
    have "confidence e \<le> confidence (better c e)" by (simp add: better_def)
    with ge 2 show ?thesis by simp
  next
    case 3
    then have "d \<in> set (better c e # ov)" by simp
    from Cons.IH [OF this] show ?thesis by simp
  qed
qed

lemma bestOf_mem: "cl \<noteq> [] \<Longrightarrow> bestOf cl \<in> set cl"
  using foldl_better_mem [of "hd cl" "tl cl"] by (cases cl) (auto simp: bestOf_def)

lemma bestOf_max: "d \<in> set cl \<Longrightarrow> confidence d \<le> confidence (bestOf cl)"
  using foldl_better_max [of d "hd cl" "tl cl"] by (cases cl) (auto simp: bestOf_def)

lemma overlapClusters_length_le: "length (overlapClusters thr ds) \<le> length ds"
proof (induction thr ds rule: overlapClusters.induct)
  case (1 thr)
  show ?case by simp
next
  case (2 thr current rest)
  have "length (filter (\<lambda>d. \<not> overlaps thr current d) rest) \<le> length rest" by simp
  with 2 have "length (overlapClusters thr (filter (\<lambda>d. \<not> overlaps thr current d) rest)) \<le> length rest"
    by (rule le_trans)
  then show ?case by simp
qed

lemma overlapClusters_mset: "mset (concat (overlapClusters thr ds)) = mset ds"
proof (induction thr ds rule: overlapClusters.induct)
  case (1 thr)
  show ?case by simp
next
  case (2 thr current rest)
  have "mset (filter (overlaps thr current) rest)
          + mset (filter (\<lambda>d. \<not> overlaps thr current d) rest) = mset rest"
    by (induction rest) auto
  with 2 show ?case by (simp add: add.assoc)
qed

lemma overlapClusters_members:
  "cl \<in> set (overlapClusters thr ds) \<Longrightarrow>
     cl \<noteq> [] \<and> set cl \<subseteq> set ds \<and> (\<forall>d \<in> set (tl cl). overlaps thr (hd cl) d)"
proof (induction thr ds rule: overlapClusters.induct)
  case (1 thr)
  then show ?case by simp
next
  case (2 thr current rest)
  from "2.prems" consider
      "cl = current # filter (overlaps thr current) rest"
    | "cl \<in> set (overlapClusters thr (filter (\<lambda>d. \<not> overlaps thr current d) rest))"
    by auto
  then show ?case
  proof cases
    case 1
    then show ?thesis by auto
  next
    case 2
    from "2.IH" [OF this] show ?thesis by auto
  qed
qed

lemma merge_mset: "mset (mergeOverlappingDetections ds thr) \<subseteq># mset ds"
proof -
  have "mset (map bestOf cls) \<subseteq># mset (concat cls)" if "\<forall>cl \<in> set cls. cl \<noteq> []" for cls
    using that
  proof (induction cls)
    case Nil
    show ?case by simp
  next
    case (Cons cl cls)
    then have "bestOf cl \<in> set cl" by (simp add: bestOf_mem)
    then have "{#bestOf cl#} \<subseteq># mset cl" by simp
    moreover have "mset (map bestOf cls) \<subseteq># mset (concat cls)" using Cons by simp
    ultimately show ?case
      using subset_mset.add_mono [of "{#bestOf cl#}" "mset cl" "mset (map bestOf cls)" "mset (concat cls)"]
      by simp
  qed
  moreover have "\<forall>cl \<in> set (overlapClusters thr ds). cl \<noteq> []"
    using overlapClusters_members by blast
  ultimately have "mset (map bestOf (overlapClusters thr ds)) \<subseteq># mset (concat (overlapClusters thr ds))"
    by blast
  then show ?thesis
    by (simp only: merge_clusters overlapClusters_mset)
qed

lemma merge_set: "set (mergeOverlappingDetections ds thr) \<subseteq> set ds"
  using merge_mset [of ds thr] set_mset_mono by fastforce

section \<open>Grouping by label\<close>

lemma pushByLabel_mset:
  "mset (concat (map snd (pushByLabel d groups))) = add_mset d (mset (concat (map snd groups)))"
  by (induction groups) auto

lemma pushByLabel_keys:
  "map fst (pushByLabel d groups) =
     (if label d \<in> set (map fst groups) then map fst groups else map fst groups @ [label d])"
proof (induction groups)
  case Nil
  show ?case by simp
next
  case (Cons p groups)
  obtain l g where p: "p = (l, g)" by (cases p)
  show ?case
  proof (cases "l = label d")
    case True
    with p show ?thesis by simp
  next
    case False
    with p Cons show ?thesis by (cases "label d \<in> set (map fst groups)") auto
  qed
qed

lemma pushByLabel_distinct:
  "distinct (map fst groups) \<Longrightarrow> distinct (map fst (pushByLabel d groups))"
  by (simp add: pushByLabel_keys)

lemma pushByLabel_labels:
  "\<forall>(l, g) \<in> set groups. \<forall>e \<in> set g. label e = l \<Longrightarrow>
   \<forall>(l, g) \<in> set (pushByLabel d groups). \<forall>e \<in> set g. label e = l"
proof (induction groups)
  case Nil
  show ?case by simp
next
  case (Cons p groups)
  obtain l g where p: "p = (l, g)" by (cases p)
  have tl: "\<forall>(l, g) \<in> set groups. \<forall>e \<in> set g. label e = l"
    using Cons.prems by simp
  have hd: "\<forall>e \<in> set g. label e = l"
    using Cons.prems p by simp
  show ?case
  proof (cases "l = label d")
    case True
    with p tl hd show ?thesis by auto
  next
    case False
    have "\<forall>(l, g) \<in> set (pushByLabel d groups). \<forall>e \<in> set g. label e = l"
      using tl by (rule Cons.IH)
    with False p hd show ?thesis by auto
  qed
qed

lemma foldl_push_mset:
  "mset (concat (map snd (foldl (\<lambda>groups d. pushByLabel d groups) groups ds)))
     = mset ds + mset (concat (map snd groups))"
  by (induction ds arbitrary: groups) (auto simp: pushByLabel_mset)

lemma foldl_push_distinct:
  "distinct (map fst groups) \<Longrightarrow>
   distinct (map fst (foldl (\<lambda>groups d. pushByLabel d groups) groups ds))"
  by (induction ds arbitrary: groups) (auto simp: pushByLabel_distinct)

lemma foldl_push_labels:
  "\<forall>(l, g) \<in> set groups. \<forall>e \<in> set g. label e = l \<Longrightarrow>
   \<forall>(l, g) \<in> set (foldl (\<lambda>groups d. pushByLabel d groups) groups ds). \<forall>e \<in> set g. label e = l"
proof (induction ds arbitrary: groups)
  case Nil
  then show ?case by simp
next
  case (Cons d ds)
  have "\<forall>(l, g) \<in> set (pushByLabel d groups). \<forall>e \<in> set g. label e = l"
    using Cons.prems by (rule pushByLabel_labels)
  from Cons.IH [OF this] show ?case by simp
qed

lemma groupByLabel_mset: "mset (concat (map snd (groupByLabel ds))) = mset ds"
  by (simp add: groupByLabel_def foldl_push_mset)

lemma groupByLabel_distinct: "distinct (map fst (groupByLabel ds))"
  by (simp add: groupByLabel_def foldl_push_distinct)

lemma groupByLabel_labels: "(l, g) \<in> set (groupByLabel ds) \<Longrightarrow> e \<in> set g \<Longrightarrow> label e = l"
  using foldl_push_labels [of "[]" ds] by (auto simp: groupByLabel_def)

lemma sortByConfidenceDesc_mset: "mset (sortByConfidenceDesc ds) = mset ds"
  by (simp add: sortByConfidenceDesc_def)

lemma concat_map_mset_mono:
  "(\<And>g. g \<in> set gs \<Longrightarrow> mset (f g) \<subseteq># mset (h g)) \<Longrightarrow>
   mset (concat (map f gs)) \<subseteq># mset (concat (map h gs))"
proof (induction gs)
  case Nil
  show ?case by simp
next
  case (Cons g gs)
  have "mset (f g) \<subseteq># mset (h g)" using Cons.prems by simp
  moreover have "mset (concat (map f gs)) \<subseteq># mset (concat (map h gs))"
    using Cons by simp
  ultimately show ?case
    using subset_mset.add_mono by fastforce
qed

lemma filterAndMerge_mset: "mset (filterAndMergeDetections ds) \<subseteq># mset ds"
proof -
  let ?filtered = "filter (\<lambda>d. confidence d > 6/10) ds"
  let ?groups = "groupByLabel ?filtered"
  have "mset (concat (map (\<lambda>(l, labelDetections). mergeOverlappingDetections labelDetections (3/10)) ?groups))
          \<subseteq># mset (concat (map snd ?groups))"
    by (rule concat_map_mset_mono) (auto simp: merge_mset)
  also have "\<dots> = mset ?filtered" by (rule groupByLabel_mset)
  also have "\<dots> \<subseteq># mset ds" by simp
  finally show ?thesis
    by (simp add: filterAndMergeDetections_def sortByConfidenceDesc_mset)
qed

lemma filterAndMerge_set: "set (filterAndMergeDetections ds) \<subseteq> set ds"
  using filterAndMerge_mset [of ds] set_mset_mono by fastforce

section \<open>Evaluation at concrete inputs\<close>

lemmas eval_defs = filterAndMergeDetections_def groupByLabel_def mergeOverlappingDetections_def
  overlaps_def calculateOverlap_def better_def bestOf_def sortByConfidenceDesc_def Let_def
  mkDetection_def countLabel_def
  helmetLeft_def helmetMiddle_def helmetRight_def helmetWhole_def helmetStrip_def
  vestA_def vestB_def vestC_def personWide_def faint_def

section \<open>The per-class limit of the second variant\<close>

lemma countLabel_append: "countLabel L (xs @ ys) = countLabel L xs + countLabel L ys"
  by (simp add: countLabel_def)

lemma countLabel_other: "\<forall>e \<in> set xs. label e \<noteq> L \<Longrightarrow> countLabel L xs = 0"
  by (induction xs) (auto simp: countLabel_def)

lemma countLabel_le_length: "countLabel L xs \<le> length xs"
  by (simp add: countLabel_def)

lemma limit_group_labels:
  "\<forall>e \<in> set g. label e = l \<Longrightarrow> \<forall>e \<in> set (take n (sortByConfidenceDesc g)). label e = l"
  by (auto simp: sortByConfidenceDesc_def dest: in_set_takeD)

lemma limit_groups_count:
  "distinct (map fst gs) \<Longrightarrow> \<forall>(l, g) \<in> set gs. \<forall>e \<in> set g. label e = l \<Longrightarrow>
   countLabel L (concat (map (\<lambda>(l, g). take (maxPerClass l) (sortByConfidenceDesc g)) gs))
     \<le> (if L \<in> fst ` set gs then maxPerClass L else 0)"
proof (induction gs)
  case Nil
  show ?case by (simp add: countLabel_def)
next
  case (Cons p gs)
  obtain l g where p: "p = (l, g)" by (cases p)
  let ?f = "\<lambda>(l, g). take (maxPerClass l) (sortByConfidenceDesc g)"
  have dist: "distinct (map fst gs)" and fresh: "l \<notin> fst ` set gs"
    using Cons.prems(1) p by auto
  have labs: "\<forall>(l, g) \<in> set gs. \<forall>e \<in> set g. label e = l"
    using Cons.prems(2) by simp
  have hd_lab: "\<forall>e \<in> set (take (maxPerClass l) (sortByConfidenceDesc g)). label e = l"
    using Cons.prems(2) p by (intro limit_group_labels) simp
  have IH: "countLabel L (concat (map ?f gs)) \<le> (if L \<in> fst ` set gs then maxPerClass L else 0)"
    using Cons.IH [OF dist labs] .
  have split: "countLabel L (concat (map ?f (p # gs)))
      = countLabel L (take (maxPerClass l) (sortByConfidenceDesc g)) + countLabel L (concat (map ?f gs))"
    using p by (simp add: countLabel_append)
  show ?case
  proof (cases "l = L")
    case True
    then have "L \<notin> fst ` set gs" using fresh by simp
    with IH have "countLabel L (concat (map ?f gs)) = 0" by simp
    moreover have "countLabel L (take (maxPerClass l) (sortByConfidenceDesc g)) \<le> maxPerClass L"
      using countLabel_le_length [of L "take (maxPerClass l) (sortByConfidenceDesc g)"] True by simp
    ultimately show ?thesis using split True p by simp
  next
    case False
    then have "countLabel L (take (maxPerClass l) (sortByConfidenceDesc g)) = 0"
      using hd_lab by (intro countLabel_other) auto
    with IH split False p show ?thesis by auto
  qed
qed

lemma limit_count: "countLabel L (limitDetectionsPerClass ds) \<le> maxPerClass L"
proof -
  have "countLabel L (limitDetectionsPerClass ds)
          \<le> (if L \<in> fst ` set (groupByLabel ds) then maxPerClass L else 0)"
    unfolding limitDetectionsPerClass_def Let_def
    by (rule limit_groups_count) (auto simp: groupByLabel_distinct dest: groupByLabel_labels)
  then show ?thesis by (simp split: if_splits)
qed

lemma detectPPE_alt_count: "countLabel L (detectPPE_alt a) = countLabel L (limitDetectionsPerClass (detections a))"
  by (simp add: detectPPE_alt_def countLabel_def Let_def filter_map comp_def)

section \<open>Sorting\<close>

lemma sortByConfidenceDesc_sorted:
  "sorted_wrt (\<lambda>a b. confidence a \<ge> confidence b) (sortByConfidenceDesc ds)"
proof -
  have "sorted (map (\<lambda>d. - confidence d) (sort_key (\<lambda>d. - confidence d) ds))"
    by (rule sorted_sort_key)
  then show ?thesis
    by (simp add: sortByConfidenceDesc_def sorted_map)
qed

lemma sortByConfidenceDesc_idem:
  "sortByConfidenceDesc (sortByConfidenceDesc ds) = sortByConfidenceDesc ds"
  unfolding sortByConfidenceDesc_def
  by (rule sort_key_id_if_sorted) (rule sorted_sort_key)

section \<open>Printing with a fixed number of decimals\<close>

declare natToString.simps [simp del]







lemma natToString_nonempty: "natToString n \<noteq> []"
  by (simp add: natToString.simps [of n])







section \<open>Scan positions\<close>

declare loopFrom.simps [simp del]

lemma loopFrom_bounds: "v \<in> set (loopFrom start stop stride) \<Longrightarrow> start \<le> v \<and> v < stop"
proof (induction start stop stride rule: loopFrom.induct)
  case (1 s stop stride)
  show ?case
  proof (cases "s < stop \<and> 0 < stride")
    case True
    with "1.prems" have "v = s \<or> v \<in> set (loopFrom (s + stride) stop stride)"
      by (simp add: loopFrom.simps [of s stop stride])
    then show ?thesis
    proof
      assume "v = s"
      with True show ?thesis by simp
    next
      assume "v \<in> set (loopFrom (s + stride) stop stride)"
      from "1.IH" [OF True this] True show ?thesis by simp
    qed
  next
    case False
    with "1.prems" show ?thesis by (simp add: loopFrom.simps [of s stop stride])
  qed
qed

lemma loopFrom_step:
  "start < stop \<Longrightarrow> 0 < stride \<Longrightarrow>
   loopFrom start stop stride = start # loopFrom (start + stride) stop stride"
  by (simp add: loopFrom.simps [of start stop stride])

lemma loopFrom_none: "stop \<le> start \<Longrightarrow> loopFrom start stop stride = []"
  by (simp add: loopFrom.simps [of start stop stride])

section \<open>The pipeline on images of one colour\<close>

lemma concat_replicate_nth:
  "i < n * length xs \<Longrightarrow> concat (replicate n xs) ! i = xs ! (i mod length xs)"
proof (induction n arbitrary: i)
  case 0
  then show ?case by simp
next
  case (Suc n)
  show ?case
  proof (cases "i < length xs")
    case True
    then show ?thesis by (simp add: nth_append)
  next
    case False
    then have "i - length xs < n * length xs" using Suc.prems by simp
    from Suc.IH [OF this] False show ?thesis
      by (simp add: nth_append le_mod_geq)
  qed
qed

lemma uniformData_length: "length (uniformData n p) = 4 * n"
  by (simp add: uniformData_def length_concat sum_list_replicate)

lemma uniformData_pixel:
  assumes "k < n"
  shows "uniformData n p ! (4 * k) = pixel_r p" "uniformData n p ! (4 * k + 1) = pixel_g p"
    "uniformData n p ! (4 * k + 2) = pixel_b p" "uniformData n p ! (4 * k + 3) = pixel_a p"
proof -
  let ?xs = "[pixel_r p, pixel_g p, pixel_b p, pixel_a p]"
  have n: "uniformData n p ! (4 * k + j) = ?xs ! j" if "j < 4" for j
  proof -
    have "4 * k + j < n * length ?xs" using assms that by simp
    then have "concat (replicate n ?xs) ! (4 * k + j) = ?xs ! ((4 * k + j) mod length ?xs)"
      by (rule concat_replicate_nth)
    moreover have "(4 * k + j) mod length ?xs = j" using that by simp
    ultimately show ?thesis by (simp only: uniformData_def)
  qed
  have "uniformData n p ! (4 * k + 0) = ?xs ! 0" by (rule n) simp
  then show "uniformData n p ! (4 * k) = pixel_r p" by simp
  have "uniformData n p ! (4 * k + 1) = ?xs ! 1" by (rule n) simp
  then show "uniformData n p ! (4 * k + 1) = pixel_g p" by simp
  have "uniformData n p ! (4 * k + 2) = ?xs ! 2" by (rule n) simp
  then show "uniformData n p ! (4 * k + 2) = pixel_b p" by simp
  have "uniformData n p ! (4 * k + 3) = ?xs ! 3" by (rule n) simp
  then show "uniformData n p ! (4 * k + 3) = pixel_a p" by simp
qed

lemma concat_map_replicate:
  "(\<And>v. v \<in> set vs \<Longrightarrow> f v = replicate k c) \<Longrightarrow>
   concat (map f vs) = replicate (length vs * k) c"
  by (induction vs) (simp_all add: replicate_add)

lemma extract_uniform:
  assumes "0 \<le> x" "0 \<le> y" "0 < width" "width * height \<le> int n"
  shows "extractImageRegion (uniformData n p) width height x y w h
           = replicate (nat (min (y + h) height - y) * nat (min (x + w) width - x)) p"
proof -
  let ?endX = "min (x + w) width" and ?endY = "min (y + h) height"
  let ?cell = "\<lambda>py px.
           let idx = nat ((py * width + px) * 4)
           in if idx + 3 < length (uniformData n p)
              then [\<lparr>pixel_r = uniformData n p ! idx, pixel_g = uniformData n p ! (idx + 1),
                     pixel_b = uniformData n p ! (idx + 2), pixel_a = uniformData n p ! (idx + 3)\<rparr>]
              else []"
  have cell: "?cell py px = replicate 1 p"
    if py: "py \<in> set [y..?endY - 1]" and px: "px \<in> set [x..?endX - 1]" for py px
  proof -
    have b: "0 \<le> py" "py < height" "0 \<le> px" "px < width"
      using py px assms(1,2) by auto
    then have "py * width + px < (py + 1) * width" by (simp add: algebra_simps)
    also have "\<dots> \<le> height * width" using b assms(3) by (intro mult_right_mono) auto
    finally have lt: "py * width + px < int n" using assms(4) by (simp add: mult.commute)
    have nn: "0 \<le> py * width + px" using b assms(3) by simp
    define k where "k = nat (py * width + px)"
    have k: "k < n" using lt nn by (simp add: k_def)
    have idx: "nat ((py * width + px) * 4) = 4 * k"
      using nn by (simp add: k_def nat_mult_distrib)
    have "4 * k + 3 < 4 * n" using k by simp
    then show ?thesis
      unfolding Let_def idx uniformData_length
      by (simp only: uniformData_pixel [OF k] if_True) simp
  qed
  have row: "concat (map (?cell py) [x..?endX - 1]) = replicate (nat (?endX - x)) p"
    if py: "py \<in> set [y..?endY - 1]" for py
    using concat_map_replicate [of "[x..?endX - 1]" "?cell py" 1 p] cell [OF py]
    by simp
  have "concat (map (\<lambda>py. concat (map (?cell py) [x..?endX - 1])) [y..?endY - 1])
          = replicate (length [y..?endY - 1] * nat (?endX - x)) p"
    by (rule concat_map_replicate) (rule row)
  then show ?thesis
    by (simp add: extractImageRegion_def Let_def)
qed

lemma helmet_analysis_yellow:
  "analyzeHelmetRegion (replicate 64 yellowPixel) 32
     = \<lparr>isHelmet = True, helmet_confidence = 0.95, helmet_color = Some ''yellow''\<rparr>"
proof -
  have c: "dominant (analyzeColors (replicate 64 yellowPixel)) = \<lparr>rgb_r = 255, rgb_g = 255, rgb_b = 0\<rparr>"
    by (simp add: yellowPixel_def analyzeColors_def Math_round_def Let_def sum_list_replicate)
  have s: "analyzeShape (replicate 64 yellowPixel) 32
             = \<lparr>roundness = 0.8, uniformity = 1, edgeDensity = 0.7\<rparr>"
    by (simp add: yellowPixel_def analyzeShape_def slice_def Let_def)
  show ?thesis
    by (simp add: analyzeHelmetRegion_def c s Let_def PPE_COLORS_helmet_def isColorInRange_def)
qed

lemma helmet_analysis_navy:
  "analyzeHelmetRegion (replicate 64 navyPixel) 32
     = \<lparr>isHelmet = True, helmet_confidence = 0.95, helmet_color = Some ''darkBlue''\<rparr>"
proof -
  have c: "dominant (analyzeColors (replicate 64 navyPixel)) = \<lparr>rgb_r = 0, rgb_g = 0, rgb_b = 128\<rparr>"
    by (simp add: navyPixel_def analyzeColors_def Math_round_def Let_def sum_list_replicate)
  have s: "analyzeShape (replicate 64 navyPixel) 32
             = \<lparr>roundness = 0.8, uniformity = 1, edgeDensity = 0.7\<rparr>"
    by (simp add: navyPixel_def analyzeShape_def slice_def Let_def)
  show ?thesis
    by (simp add: analyzeHelmetRegion_def c s Let_def PPE_COLORS_helmet_def isColorInRange_def)
qed

lemma vest_needs_colour:
  "\<not> isColorInRange (dominant (analyzeColors regionPixels)) PPE_COLORS_vest_highVis \<Longrightarrow>
   \<not> isVest (analyzeVestRegion regionPixels blockSize)"
  by (simp add: analyzeVestRegion_def Let_def)

lemma vest_analysis_navy: "\<not> isVest (analyzeVestRegion (replicate 96 navyPixel) 48)"
proof (rule vest_needs_colour)
  have "dominant (analyzeColors (replicate 96 navyPixel)) = \<lparr>rgb_r = 0, rgb_g = 0, rgb_b = 128\<rparr>"
    by (simp add: navyPixel_def analyzeColors_def Math_round_def Let_def sum_list_replicate)
  then show "\<not> isColorInRange (dominant (analyzeColors (replicate 96 navyPixel))) PPE_COLORS_vest_highVis"
    by (simp add: isColorInRange_def PPE_COLORS_vest_highVis_def)
qed

lemma yellow_region: "extractImageRegion yellowData 33 2 0 0 32 32 = replicate 64 yellowPixel"
  unfolding yellowData_def by (subst extract_uniform) simp_all

lemma navy_region:
  "0 \<le> x \<Longrightarrow> x \<le> 97 \<Longrightarrow> extractImageRegion navyData 129 2 x 0 32 32 = replicate 64 navyPixel"
  unfolding navyData_def by (subst extract_uniform) simp_all

lemma navy_region_vest:
  "0 \<le> x \<Longrightarrow> x \<le> 81 \<Longrightarrow> extractImageRegion navyData 129 2 x 0 48 48 = replicate 96 navyPixel"
  unfolding navyData_def by (subst extract_uniform) simp_all

lemma yellow_helmets: "detectHelmets yellowData 33 2 = [yellowHelmet]"
  by (simp add: detectHelmets_def Let_def loopFrom_step loopFrom_none yellow_region
        helmet_analysis_yellow refineHelmetBounds_def mergeOverlappingDetections_def yellowHelmet_def)

lemma yellow_others:
  "detectPerson yellowData 33 2 = []" "detectVests yellowData 33 2 = []"
  "detectFullPPE yellowData 33 2 = []"
  by (simp_all add: detectPerson_def findPersonRegions_def detectVests_def detectFullPPE_def
        findFullBodyPPE_def Let_def loopFrom_none loopFrom_step mergeOverlappingDetections_def)

lemma yellow_pipeline: "detectInImageData yellowData 33 2 = [yellowHelmet]"
  by (simp add: detectInImageData_def yellow_helmets yellow_others filterAndMergeDetections_def
        groupByLabel_def mergeOverlappingDetections_def sortByConfidenceDesc_def yellowHelmet_def)

lemma yellow_detectPPE: "detectPPE yellowImage imagePath = [yellowHelmet]"
  by (simp add: detectPPE_def analyzeImageForPPE_def detectPPEObjects_def yellowImage_def
        yellow_pipeline Let_def)

lemma navy_candidates:
  "concat (map (\<lambda>y. concat (map (\<lambda>x.
            let region = extractImageRegion navyData 129 2 x y 32 32;
                helmetAnalysis = analyzeHelmetRegion region 32
            in if isHelmet helmetAnalysis \<and> helmet_confidence helmetAnalysis > 0.7
               then
                 let refinedBounds = refineHelmetBounds navyData 129 2 x y 32
                 in [\<lparr>label = ''helmet'', confidence = helmet_confidence helmetAnalysis,
                      color = helmet_color helmetAnalysis,
                      bbox = \<lparr>bbox_x = bbox_x refinedBounds / real_of_int 129,
                              bbox_y = bbox_y refinedBounds / real_of_int 2,
                              bbox_width = bbox_width refinedBounds / real_of_int 129,
                              bbox_height = bbox_height refinedBounds / real_of_int 2\<rparr>\<rparr>]
               else [])
            (loopFrom 0 (129 - 32) 16)))
          (loopFrom 0 \<lfloor>real_of_int 2 * 0.5\<rfloor> 16))
     = [navyHelmet 0 48, navyHelmet 8 48, navyHelmet 24 48, navyHelmet 40 48,
        navyHelmet 56 48, navyHelmet 72 48, navyHelmet 88 41]"
  by (simp add: Let_def loopFrom_step loopFrom_none navy_region helmet_analysis_navy
        refineHelmetBounds_def navyHelmet_def)

lemma navy_merge:
  "mergeOverlappingDetections
     [navyHelmet 0 48, navyHelmet 8 48, navyHelmet 24 48, navyHelmet 40 48,
      navyHelmet 56 48, navyHelmet 72 48, navyHelmet 88 41] 0.3
   = [navyHelmet 0 48, navyHelmet 40 48, navyHelmet 72 48]"
  by (simp add: mergeOverlappingDetections_def overlaps_def calculateOverlap_def better_def
        Let_def navyHelmet_def)

lemma navy_helmets:
  "detectHelmets navyData 129 2 = [navyHelmet 0 48, navyHelmet 40 48, navyHelmet 72 48]"
  unfolding detectHelmets_def Let_def
  using navy_candidates [unfolded Let_def] navy_merge by simp

lemma navy_others:
  "detectPerson navyData 129 2 = []" "detectVests navyData 129 2 = []"
  "detectFullPPE navyData 129 2 = []"
  by (simp_all add: detectPerson_def findPersonRegions_def detectVests_def detectFullPPE_def
        findFullBodyPPE_def Let_def loopFrom_none loopFrom_step mergeOverlappingDetections_def
        navy_region_vest vest_analysis_navy)

lemma navy_pipeline:
  "detectInImageData navyData 129 2 = [navyHelmet 0 48, navyHelmet 40 48, navyHelmet 72 48]"
  by (simp add: detectInImageData_def navy_helmets navy_others filterAndMergeDetections_def
        groupByLabel_def mergeOverlappingDetections_def overlaps_def calculateOverlap_def
        better_def sortByConfidenceDesc_def Let_def navyHelmet_def)

lemma navy_detectPPE:
  "detectPPE navyImage imagePath = [navyHelmet 0 48, navyHelmet 40 48, navyHelmet 72 48]"
  by (simp add: detectPPE_def analyzeImageForPPE_def detectPPEObjects_def navyImage_def
        navy_pipeline Let_def)

section \<open>Boxes of the scanners lie in the unit square\<close>

lemma in_unit:
  fixes a b W :: real
  assumes "0 \<le> a" "0 \<le> b" "a + b \<le> W" "0 < W"
  shows "0 \<le> a / W \<and> a / W \<le> 1 \<and> 0 \<le> b / W \<and> b / W \<le> 1 \<and> a / W + b / W \<le> 1.001"
proof -
  have "a / W + b / W = (a + b) / W" by (simp add: add_divide_distrib)
  also have "\<dots> \<le> 1" using assms by simp
  finally have s: "a / W + b / W \<le> 1" .
  have n: "0 \<le> a / W" "0 \<le> b / W" using assms by simp_all
  have t: "(1::real) \<le> 1.001" by simp
  have "a / W \<le> 1" "b / W \<le> 1" "a / W + b / W \<le> 1.001"
    using s n t by linarith+
  with n show ?thesis by blast
qed

lemma inRange_box:
  fixes bx bw W bt bh H c :: real
  assumes "0 \<le> c" "c \<le> 1"
    and "0 \<le> bx" "0 \<le> bw" "bx + bw \<le> W" "0 < W"
    and "0 \<le> bt" "0 \<le> bh" "bt + bh \<le> H" "0 < H"
  shows "inRange \<lparr>label = l, confidence = c, color = col,
           bbox = \<lparr>bbox_x = bx / W, bbox_y = bt / H, bbox_width = bw / W, bbox_height = bh / H\<rparr>\<rparr>"
  using in_unit [OF assms(3-6)] in_unit [OF assms(7-10)] assms(1,2)
  by (simp add: inRange_def)

lemma analyzeSkinTone_le_1: "analyzeSkinTone pixels \<le> 1"
proof (cases "length pixels = 0")
  case True
  then show ?thesis by (simp add: analyzeSkinTone_def)
next
  case False
  let ?k = "length (filter (\<lambda>p.
              pixel_r p > 95 \<and> pixel_g p > 40 \<and> pixel_b p > 20 \<and>
              pixel_r p > pixel_g p \<and> pixel_r p > pixel_b p \<and>
              int (pixel_r p) - int (pixel_g p) > 15) pixels)"
  have "?k \<le> length pixels" by (rule length_filter_le)
  then have "real ?k / real (length pixels) \<le> 1" using False by simp
  with False show ?thesis by (simp add: analyzeSkinTone_def Let_def)
qed

lemma detectPerson_inRange: "d \<in> set (detectPerson data width height) \<Longrightarrow> inRange d"
proof -
  assume "d \<in> set (detectPerson data width height)"
  then obtain x y where
    x: "x \<in> set (loopFrom 0 (width - 64) 32)" and y: "y \<in> set (loopFrom 0 (height - 64) 32)"
    and c: "analyzeSkinTone (extractImageRegion data width height x y 64 64) > 0.6"
    and d: "d = \<lparr>label = ''person'',
                 confidence = analyzeSkinTone (extractImageRegion data width height x y 64 64),
                 color = None,
                 bbox = \<lparr>bbox_x = real_of_int x / real_of_int width,
                         bbox_y = real_of_int y / real_of_int height,
                         bbox_width = real_of_int 64 / real_of_int width,
                         bbox_height = real_of_int 64 / real_of_int height\<rparr>\<rparr>"
    by (auto simp: detectPerson_def findPersonRegions_def Let_def split: if_splits)
  from loopFrom_bounds [OF x] have xb: "0 \<le> x" "x + 64 < width" by auto
  from loopFrom_bounds [OF y] have yb: "0 \<le> y" "y + 64 < height" by auto
  show "inRange d"
    unfolding d
  proof (rule inRange_box)
    show "0 \<le> analyzeSkinTone (extractImageRegion data width height x y 64 64)" using c by simp
    show "analyzeSkinTone (extractImageRegion data width height x y 64 64) \<le> 1"
      by (rule analyzeSkinTone_le_1)
  qed (use xb yb in simp_all)
qed

lemma helmet_confidence_le: "helmet_confidence (analyzeHelmetRegion regionPixels blockSize) \<le> 0.95"
proof (cases "length regionPixels = 0")
  case True
  then show ?thesis by (simp add: analyzeHelmetRegion_def)
next
  case False
  show ?thesis
    unfolding analyzeHelmetRegion_def Let_def
    by (simp only: False if_False helmetAnalysis.select_convs min.cobounded2)
qed

lemma vest_confidence_le: "vest_confidence (analyzeVestRegion regionPixels blockSize) \<le> 0.95"
proof (cases "length regionPixels = 0")
  case True
  then show ?thesis by (simp add: analyzeVestRegion_def)
next
  case False
  show ?thesis
    unfolding analyzeVestRegion_def Let_def
    by (simp only: False if_False vestAnalysis.select_convs min.cobounded2)
qed

lemma refineHelmetBounds_fields:
  "bbox_x (refineHelmetBounds data width height x y 32) = max 0 (real_of_int x - 8)"
  "bbox_y (refineHelmetBounds data width height x y 32) = max 0 (real_of_int y - 8)"
  "bbox_width (refineHelmetBounds data width height x y 32)
     = min 48 (real_of_int width - max 0 (real_of_int x - 8))"
  "bbox_height (refineHelmetBounds data width height x y 32)
     = min 48 (real_of_int height - max 0 (real_of_int y - 8))"
  by (simp_all add: refineHelmetBounds_def Let_def)

lemma refineVestBounds_fields:
  "bbox_x (refineVestBounds data width height x y 48) = max 0 (real_of_int x - 19.2)"
  "bbox_y (refineVestBounds data width height x y 48) = max 0 (real_of_int y - 4.8)"
  "bbox_width (refineVestBounds data width height x y 48)
     = min 86 (real_of_int width - max 0 (real_of_int x - 19.2))"
  "bbox_height (refineVestBounds data width height x y 48)
     = min 57 (real_of_int height - max 0 (real_of_int y - 4.8))"
  by (simp_all add: refineVestBounds_def Let_def)

lemma detectHelmets_inRange: "d \<in> set (detectHelmets data width height) \<Longrightarrow> inRange d"
proof -
  assume "d \<in> set (detectHelmets data width height)"
  then have "d \<in> set (concat (map (\<lambda>y. concat (map (\<lambda>x.
            let region = extractImageRegion data width height x y 32 32;
                helmetAnalysis = analyzeHelmetRegion region 32
            in if isHelmet helmetAnalysis \<and> helmet_confidence helmetAnalysis > 0.7
               then
                 let refinedBounds = refineHelmetBounds data width height x y 32
                 in [\<lparr>label = ''helmet'', confidence = helmet_confidence helmetAnalysis,
                      color = helmet_color helmetAnalysis,
                      bbox = \<lparr>bbox_x = bbox_x refinedBounds / real_of_int width,
                              bbox_y = bbox_y refinedBounds / real_of_int height,
                              bbox_width = bbox_width refinedBounds / real_of_int width,
                              bbox_height = bbox_height refinedBounds / real_of_int height\<rparr>\<rparr>]
               else [])
            (loopFrom 0 (width - 32) 16)))
          (loopFrom 0 \<lfloor>real_of_int height * 0.5\<rfloor> 16)))"
    using merge_set by (fastforce simp: detectHelmets_def Let_def)
  then obtain x y where
    x: "x \<in> set (loopFrom 0 (width - 32) 16)"
    and y: "y \<in> set (loopFrom 0 \<lfloor>real_of_int height * 0.5\<rfloor> 16)"
    and c: "helmet_confidence (analyzeHelmetRegion (extractImageRegion data width height x y 32 32) 32) > 0.7"
    and d: "d = \<lparr>label = ''helmet'',
                 confidence = helmet_confidence (analyzeHelmetRegion (extractImageRegion data width height x y 32 32) 32),
                 color = helmet_color (analyzeHelmetRegion (extractImageRegion data width height x y 32 32) 32),
                 bbox = \<lparr>bbox_x = bbox_x (refineHelmetBounds data width height x y 32) / real_of_int width,
                         bbox_y = bbox_y (refineHelmetBounds data width height x y 32) / real_of_int height,
                         bbox_width = bbox_width (refineHelmetBounds data width height x y 32) / real_of_int width,
                         bbox_height = bbox_height (refineHelmetBounds data width height x y 32) / real_of_int height\<rparr>\<rparr>"
    by (auto simp: Let_def split: if_splits)
  from loopFrom_bounds [OF x] have xb: "0 \<le> x" "x + 32 < width" by auto
  from loopFrom_bounds [OF y] have y0: "0 \<le> y" and "y < \<lfloor>real_of_int height * 0.5\<rfloor>" by auto
  then have "real_of_int y + 1 \<le> real_of_int height * 0.5" by (simp add: less_floor_iff)
  with y0 have yb: "real_of_int y < real_of_int height" "0 < real_of_int height" by simp_all
  have xr: "0 \<le> real_of_int x" "real_of_int x + 32 < real_of_int width"
    using xb by simp_all
  have yr: "0 \<le> real_of_int y" using y0 by simp
  have le: "helmet_confidence (analyzeHelmetRegion (extractImageRegion data width height x y 32 32) 32) \<le> 1"
    using helmet_confidence_le [of "extractImageRegion data width height x y 32 32" 32] by simp
  show "inRange d"
    unfolding d refineHelmetBounds_fields
  proof (rule inRange_box)
    show "0 \<le> helmet_confidence (analyzeHelmetRegion (extractImageRegion data width height x y 32 32) 32)"
      using c by simp
    show "helmet_confidence (analyzeHelmetRegion (extractImageRegion data width height x y 32 32) 32) \<le> 1"
      by (rule le)
  qed (use xr yr yb in linarith)+
qed

lemma detectVests_inRange: "d \<in> set (detectVests data width height) \<Longrightarrow> inRange d"
proof -
  let ?s = "\<lfloor>real_of_int height * 0.2\<rfloor>" and ?t = "\<lfloor>real_of_int height * 0.6\<rfloor>"
  assume "d \<in> set (detectVests data width height)"
  then have "d \<in> set (concat (map (\<lambda>y. concat (map (\<lambda>x.
            let region = extractImageRegion data width height x y 48 48;
                vestAnalysis = analyzeVestRegion region 48
            in if isVest vestAnalysis \<and> vest_confidence vestAnalysis > 0.65
               then
                 let refinedBounds = refineVestBounds data width height x y 48
                 in [\<lparr>label = ''vest'', confidence = vest_confidence vestAnalysis,
                      color = vest_color vestAnalysis,
                      bbox = \<lparr>bbox_x = bbox_x refinedBounds / real_of_int width,
                              bbox_y = bbox_y refinedBounds / real_of_int height,
                              bbox_width = bbox_width refinedBounds / real_of_int width,
                              bbox_height = bbox_height refinedBounds / real_of_int height\<rparr>\<rparr>]
               else [])
            (loopFrom 0 (width - 48) 24)))
          (loopFrom ?s (?s + ?t) 24)))"
    using merge_set by (fastforce simp: detectVests_def Let_def)
  then obtain x y where
    x: "x \<in> set (loopFrom 0 (width - 48) 24)"
    and y: "y \<in> set (loopFrom ?s (?s + ?t) 24)"
    and c: "vest_confidence (analyzeVestRegion (extractImageRegion data width height x y 48 48) 48) > 0.65"
    and d: "d = \<lparr>label = ''vest'',
                 confidence = vest_confidence (analyzeVestRegion (extractImageRegion data width height x y 48 48) 48),
                 color = vest_color (analyzeVestRegion (extractImageRegion data width height x y 48 48) 48),
                 bbox = \<lparr>bbox_x = bbox_x (refineVestBounds data width height x y 48) / real_of_int width,
                         bbox_y = bbox_y (refineVestBounds data width height x y 48) / real_of_int height,
                         bbox_width = bbox_width (refineVestBounds data width height x y 48) / real_of_int width,
                         bbox_height = bbox_height (refineVestBounds data width height x y 48) / real_of_int height\<rparr>\<rparr>"
    by (auto simp: Let_def split: if_splits)
  from loopFrom_bounds [OF x] have xb: "0 \<le> x" "x + 48 < width" by auto
  from loopFrom_bounds [OF y] have yl: "?s \<le> y" and yu: "y < ?s + ?t" by auto
  then have "1 \<le> ?t" by linarith
  then have "1 \<le> real_of_int height * 0.6" by (simp add: le_floor_iff)
  then have hp: "0 < real_of_int height" by simp
  have "real_of_int ?s \<le> real_of_int height * 0.2" "real_of_int ?t \<le> real_of_int height * 0.6"
    by (rule of_int_floor_le)+
  moreover have "real_of_int y < real_of_int ?s + real_of_int ?t"
    using yu by linarith
  ultimately have yb: "real_of_int y < real_of_int height" using hp by linarith
  have xr: "0 \<le> real_of_int x" "real_of_int x + 48 < real_of_int width"
    using xb by simp_all
  have le: "vest_confidence (analyzeVestRegion (extractImageRegion data width height x y 48 48) 48) \<le> 1"
    using vest_confidence_le [of "extractImageRegion data width height x y 48 48" 48] by simp
  show "inRange d"
    unfolding d refineVestBounds_fields
  proof (rule inRange_box)
    show "0 \<le> vest_confidence (analyzeVestRegion (extractImageRegion data width height x y 48 48) 48)"
      using c by simp
    show "vest_confidence (analyzeVestRegion (extractImageRegion data width height x y 48 48) 48) \<le> 1"
      by (rule le)
  qed (use xr yb hp in linarith)+
qed

lemma detectFullPPE_inRange: "d \<in> set (detectFullPPE data width height) \<Longrightarrow> inRange d"
proof -
  assume "d \<in> set (detectFullPPE data width height)"
  then obtain x y c where
    x: "x \<in> set (loopFrom 0 (width - 96) 48)" and y: "y \<in> set (loopFrom 0 (height - 96) 48)"
    and c: "c = 0.8 \<or> c = 0.3"
    and d: "d = \<lparr>label = ''helmet'', confidence = c, color = None,
                 bbox = \<lparr>bbox_x = real_of_int x / real_of_int width,
                         bbox_y = real_of_int y / real_of_int height,
                         bbox_width = real_of_int 96 / real_of_int width,
                         bbox_height = (real_of_int 96 * 0.3) / real_of_int height\<rparr>\<rparr>
          \<or> d = \<lparr>label = ''vest'', confidence = c, color = None,
                 bbox = \<lparr>bbox_x = real_of_int x / real_of_int width,
                         bbox_y = (real_of_int y + real_of_int 96 * 0.3) / real_of_int height,
                         bbox_width = real_of_int 96 / real_of_int width,
                         bbox_height = (real_of_int 96 * 0.7) / real_of_int height\<rparr>\<rparr>"
    by (auto simp: detectFullPPE_def findFullBodyPPE_def Let_def split: if_splits)
  from loopFrom_bounds [OF x] have xb: "0 \<le> real_of_int x" "real_of_int x + 96 < real_of_int width"
    by auto
  from loopFrom_bounds [OF y] have yb: "0 \<le> real_of_int y" "real_of_int y + 96 < real_of_int height"
    by auto
  have cb: "0 \<le> c" "c \<le> 1" using c by auto
  from d show "inRange d"
  proof
    assume h: "d = \<lparr>label = ''helmet'', confidence = c, color = None,
                 bbox = \<lparr>bbox_x = real_of_int x / real_of_int width,
                         bbox_y = real_of_int y / real_of_int height,
                         bbox_width = real_of_int 96 / real_of_int width,
                         bbox_height = (real_of_int 96 * 0.3) / real_of_int height\<rparr>\<rparr>"
    show ?thesis unfolding h
      by (rule inRange_box) (use xb yb cb in simp_all)
  next
    assume v: "d = \<lparr>label = ''vest'', confidence = c, color = None,
                 bbox = \<lparr>bbox_x = real_of_int x / real_of_int width,
                         bbox_y = (real_of_int y + real_of_int 96 * 0.3) / real_of_int height,
                         bbox_width = real_of_int 96 / real_of_int width,
                         bbox_height = (real_of_int 96 * 0.7) / real_of_int height\<rparr>\<rparr>"
    show ?thesis unfolding v
      by (rule inRange_box) (use xb yb cb in simp_all)
  qed
qed

lemma detectInImageData_inRange: "d \<in> set (detectInImageData data width height) \<Longrightarrow> inRange d"
proof -
  assume "d \<in> set (detectInImageData data width height)"
  then have "d \<in> set (detectPerson data width height @ detectHelmets data width height
                      @ detectVests data width height @ detectFullPPE data width height)"
    using filterAndMerge_set by (fastforce simp: detectInImageData_def Let_def)
  then show "inRange d"
    using detectPerson_inRange detectHelmets_inRange detectVests_inRange detectFullPPE_inRange
    by auto
qed

lemma detectPPE_cases:
  "detectPPE P imagePath = [] \<or>
   (\<exists>data width height. detectPPE P imagePath = detectInImageData data width height)"
  by (auto simp: detectPPE_def analyzeImageForPPE_def detectPPEObjects_def Let_def
        split: option.splits)

section \<open>The properties\<close>

text \<open>
  C1, as the code has it.  The cap is applied by \<^verbatim>\<open>limitDetectionsPerClass\<close>, which
  the \<^verbatim>\<open>detectPPE\<close> of the second variant calls: its result holds at most 2 helmets,
  2 vests and 1 person.  \<^verbatim>\<open>filterAndMergeDetections\<close> and the \<^verbatim>\<open>detectPPE\<close> of
  \<^verbatim>\<open>detection.js\<close> apply no cap: a dark blue image of 129 by 2 pixels yields three
  helmets.
\<close>

theorem limit_caps_each_class:
  "countLabel ''helmet'' (limitDetectionsPerClass ds) \<le> 2 \<and>
   countLabel ''vest'' (limitDetectionsPerClass ds) \<le> 2 \<and>
   countLabel ''person'' (limitDetectionsPerClass ds) \<le> 1 \<and>
   countLabel ''helmet'' (detectPPE_alt a) \<le> 2 \<and>
   countLabel ''vest'' (detectPPE_alt a) \<le> 2 \<and>
   countLabel ''person'' (detectPPE_alt a) \<le> 1"
  using limit_count [of "''helmet''" ds] limit_count [of "''vest''" ds]
    limit_count [of "''person''" ds]
    limit_count [of "''helmet''" "detections a"] limit_count [of "''vest''" "detections a"]
    limit_count [of "''person''" "detections a"]
  by (simp add: detectPPE_alt_count maxPerClass_def)

theorem limit_caps_each_class_witness:
  "limitDetectionsPerClass [helmetLeft, helmetMiddle, helmetRight] = [helmetLeft, helmetRight] \<and>
   countLabel ''helmet'' (limitDetectionsPerClass [helmetLeft, helmetMiddle, helmetRight]) \<le> 2"
proof -
  have "limitDetectionsPerClass [helmetLeft, helmetMiddle, helmetRight] = [helmetLeft, helmetRight]"
    by (simp add: limitDetectionsPerClass_def maxPerClass_def eval_defs)
  then show ?thesis
    using limit_caps_each_class [of "[helmetLeft, helmetMiddle, helmetRight]"] by simp
qed

theorem pipeline_returns_three_helmets_counterexample:
  "sharp_metadata navyImage ''uploads/crew.jpg'' = Some (129, 2) \<and>
   canvas_getImageData navyImage ''uploads/crew.jpg'' 129 2 = Some navyData \<and>
   detectPPE navyImage ''uploads/crew.jpg''
     = [navyHelmet 0 48, navyHelmet 40 48, navyHelmet 72 48] \<and>
   countLabel ''helmet'' (detectPPE navyImage ''uploads/crew.jpg'') = 3 \<and>
   filterAndMergeDetections [helmetLeft, helmetMiddle, helmetRight]
     = [helmetLeft, helmetRight, helmetMiddle] \<and>
   countLabel ''helmet'' (filterAndMergeDetections [helmetLeft, helmetMiddle, helmetRight]) = 3"
proof -
  have "countLabel ''helmet'' [navyHelmet 0 48, navyHelmet 40 48, navyHelmet 72 48] = 3"
    by (simp add: countLabel_def navyHelmet_def)
  moreover have "filterAndMergeDetections [helmetLeft, helmetMiddle, helmetRight]
     = [helmetLeft, helmetRight, helmetMiddle]"
    by (simp add: eval_defs)
  moreover have "countLabel ''helmet'' [helmetLeft, helmetRight, helmetMiddle] = 3"
    by (simp add: eval_defs)
  moreover have "detectPPE navyImage ''uploads/crew.jpg''
     = [navyHelmet 0 48, navyHelmet 40 48, navyHelmet 72 48]"
    by (rule navy_detectPPE)
  moreover have "sharp_metadata navyImage ''uploads/crew.jpg'' = Some (129, 2)"
    "canvas_getImageData navyImage ''uploads/crew.jpg'' 129 2 = Some navyData"
    by (simp_all add: navyImage_def)
  ultimately show ?thesis
    by (simp only: simp_thms)
qed

text \<open>
  C2, as the code has it.  When the image cannot be decoded, \<^verbatim>\<open>detection.js\<close> catches
  the error and returns an empty list, whatever the file is called.  The filename tier
  is \<^verbatim>\<open>fallbackDetection\<close> of the second variant: for a path that contains
  \<^verbatim>\<open>helmet\<close> in any case of the letters it returns exactly one helmet, of confidence 0.75
  and box \<open>(0.2 w, 0.1 h, 0.6 w, 0.4 h)\<close> in pixels, which the \<^verbatim>\<open>detectPPE\<close> of that
  variant turns into \<open>(0.2, 0.1, 0.6, 0.4)\<close>.  Neither passes an error on.
\<close>

theorem decode_failure_results:
  "(sharp_metadata P imagePath = None \<longrightarrow> detectPPE P imagePath = []) \<and>
   (sharp_metadata P imagePath = Some (w, h) \<and> canvas_getImageData P imagePath w h = None
      \<longrightarrow> detectPPE P imagePath = []) \<and>
   (includes_str (toLowerCase imagePath) ''helmet'' \<longrightarrow>
      filter (\<lambda>d. label d = ''helmet'') (fallbackDetection imagePath width height)
        = [\<lparr>label = ''helmet'', confidence = 0.75, color = None,
            bbox = \<lparr>bbox_x = real_of_int width * 0.2, bbox_y = real_of_int height * 0.1,
                    bbox_width = real_of_int width * 0.6,
                    bbox_height = real_of_int height * 0.4\<rparr>\<rparr>]) \<and>
   (includes_str (toLowerCase imagePath) ''helmet'' \<and> 0 < image_width a \<and> 0 < image_height a \<and>
    detections a = fallbackDetection imagePath (image_width a) (image_height a) \<longrightarrow>
      filter (\<lambda>d. label d = ''helmet'') (detectPPE_alt a)
        = [\<lparr>label = ''helmet'', confidence = 0.75, color = None,
            bbox = \<lparr>bbox_x = 0.2, bbox_y = 0.1, bbox_width = 0.6, bbox_height = 0.4\<rparr>\<rparr>])"
proof (intro conjI impI)
  show "detectPPE P imagePath = []" if "sharp_metadata P imagePath = None"
    using that by (simp add: detectPPE_def analyzeImageForPPE_def)
  show "detectPPE P imagePath = []"
    if "sharp_metadata P imagePath = Some (w, h) \<and> canvas_getImageData P imagePath w h = None"
    using that by (simp add: detectPPE_def analyzeImageForPPE_def detectPPEObjects_def Let_def)
  show "filter (\<lambda>d. label d = ''helmet'') (fallbackDetection imagePath width height)
        = [\<lparr>label = ''helmet'', confidence = 0.75, color = None,
            bbox = \<lparr>bbox_x = real_of_int width * 0.2, bbox_y = real_of_int height * 0.1,
                    bbox_width = real_of_int width * 0.6,
                    bbox_height = real_of_int height * 0.4\<rparr>\<rparr>]"
    if "includes_str (toLowerCase imagePath) ''helmet''"
    using that by (simp add: fallbackDetection_def Let_def)
  show "filter (\<lambda>d. label d = ''helmet'') (detectPPE_alt a)
        = [\<lparr>label = ''helmet'', confidence = 0.75, color = None,
            bbox = \<lparr>bbox_x = 0.2, bbox_y = 0.1, bbox_width = 0.6, bbox_height = 0.4\<rparr>\<rparr>]"
    if asm: "includes_str (toLowerCase imagePath) ''helmet'' \<and> 0 < image_width a \<and> 0 < image_height a \<and>
          detections a = fallbackDetection imagePath (image_width a) (image_height a)"
  proof (cases "includes_str (toLowerCase imagePath) ''vest''")
    case True
    with asm show ?thesis
      by (simp add: detectPPE_alt_def limitDetectionsPerClass_def groupByLabel_def maxPerClass_def
            sortByConfidenceDesc_def fallbackDetection_def Let_def)
  next
    case False
    with asm show ?thesis
      by (simp add: detectPPE_alt_def limitDetectionsPerClass_def groupByLabel_def maxPerClass_def
            sortByConfidenceDesc_def fallbackDetection_def Let_def)
  qed
qed

theorem decode_failure_results_witness:
  "includes_str (toLowerCase ''uploads/Helmet-Site.JPG'') ''helmet'' \<and>
   sharp_metadata unreadable ''uploads/Helmet-Site.JPG'' = None \<and>
   detectPPE unreadable ''uploads/Helmet-Site.JPG'' = [] \<and>
   sharp_metadata undecodable ''uploads/Helmet-Site.JPG'' = Some (800, 600) \<and>
   canvas_getImageData undecodable ''uploads/Helmet-Site.JPG'' 800 600 = None \<and>
   detectPPE undecodable ''uploads/Helmet-Site.JPG'' = [] \<and>
   fallbackDetection ''uploads/Helmet-Site.JPG'' 800 600
     = [mkDetection ''helmet'' 0.75 160 60 480 240] \<and>
   filter (\<lambda>d. label d = ''helmet'') (detectPPE_alt fallbackAnalysis)
     = [mkDetection ''helmet'' 0.75 0.2 0.1 0.6 0.4]"
proof -
  have i: "includes_str (toLowerCase ''uploads/Helmet-Site.JPG'') ''helmet''"
    and v: "\<not> includes_str (toLowerCase ''uploads/Helmet-Site.JPG'') ''vest''"
    by (simp_all add: toLowerCase_def)
  have m: "sharp_metadata unreadable ''uploads/Helmet-Site.JPG'' = None"
    "sharp_metadata undecodable ''uploads/Helmet-Site.JPG'' = Some (800, 600) \<and>
     canvas_getImageData undecodable ''uploads/Helmet-Site.JPG'' 800 600 = None"
    by (simp_all add: unreadable_def undecodable_def)
  have f: "fallbackDetection ''uploads/Helmet-Site.JPG'' 800 600
             = filter (\<lambda>d. label d = ''helmet'') (fallbackDetection ''uploads/Helmet-Site.JPG'' 800 600)"
    using i v by (simp add: fallbackDetection_def Let_def)
  have fa: "0 < image_width fallbackAnalysis \<and> 0 < image_height fallbackAnalysis \<and>
      detections fallbackAnalysis
        = fallbackDetection ''uploads/Helmet-Site.JPG'' (image_width fallbackAnalysis)
            (image_height fallbackAnalysis)"
    by (simp add: fallbackAnalysis_def)
  note T1 = decode_failure_results
              [of unreadable "''uploads/Helmet-Site.JPG''" 800 600 800 600 fallbackAnalysis]
  note T2 = decode_failure_results [of undecodable "''uploads/Helmet-Site.JPG''" 800 600 800 600]
  from T1 m(1) have a: "detectPPE unreadable ''uploads/Helmet-Site.JPG'' = []" by blast
  from T2 m(2) have b: "detectPPE undecodable ''uploads/Helmet-Site.JPG'' = []" by blast
  from T1 i have "filter (\<lambda>d. label d = ''helmet'') (fallbackDetection ''uploads/Helmet-Site.JPG'' 800 600)
     = [mkDetection ''helmet'' 0.75 160 60 480 240]"
    by (simp add: mkDetection_def)
  with f have c: "fallbackDetection ''uploads/Helmet-Site.JPG'' 800 600
     = [mkDetection ''helmet'' 0.75 160 60 480 240]" by simp
  from T1 i fa have e: "filter (\<lambda>d. label d = ''helmet'') (detectPPE_alt fallbackAnalysis)
     = [mkDetection ''helmet'' 0.75 0.2 0.1 0.6 0.4]"
    by (simp add: mkDetection_def)
  from i m a b c e show ?thesis by simp
qed

theorem decode_failure_is_empty_counterexample:
  "includes_str ''uploads/helmet.jpg'' ''helmet'' \<and>
   sharp_metadata undecodable ''uploads/helmet.jpg'' = Some (800, 600) \<and>
   canvas_getImageData undecodable ''uploads/helmet.jpg'' 800 600 = None \<and>
   detectPPE undecodable ''uploads/helmet.jpg'' = [] \<and>
   sharp_metadata unreadable ''uploads/helmet.jpg'' = None \<and>
   detectPPE unreadable ''uploads/helmet.jpg'' = []"
  by (simp add: detectPPE_def analyzeImageForPPE_def detectPPEObjects_def Let_def
        undecodable_def unreadable_def)

text \<open>
  C3.  Whatever the candidates and the threshold, every detection the Merger of
  \<^verbatim>\<open>detection.js\<close> emits is a member of highest confidence of its overlap cluster,
  and it is that input candidate itself (label, confidence, colour and box unchanged):
  the clusters partition the candidates, each cluster is its seed followed by
  candidates that pass the overlap test against the seed, and the output lists the
  best member of each cluster.  No box is enlarged and no confidence raised.
\<close>

theorem merger_emits_best_of_cluster:
  "mergeOverlappingDetections ds thr = map bestOf (overlapClusters thr ds) \<and>
   mset (concat (overlapClusters thr ds)) = mset ds \<and>
   (\<forall>cl \<in> set (overlapClusters thr ds).
      bestOf cl \<in> set cl \<and> set cl \<subseteq> set ds \<and>
      (\<forall>d \<in> set cl. confidence d \<le> confidence (bestOf cl)) \<and>
      (\<forall>d \<in> set (tl cl). overlaps thr (hd cl) d)) \<and>
   set (mergeOverlappingDetections ds thr) \<subseteq> set ds"
proof (intro conjI ballI)
  show "mergeOverlappingDetections ds thr = map bestOf (overlapClusters thr ds)"
    by (rule merge_clusters)
  show "mset (concat (overlapClusters thr ds)) = mset ds"
    by (rule overlapClusters_mset)
  show "set (mergeOverlappingDetections ds thr) \<subseteq> set ds"
    by (rule merge_set)
next
  fix cl assume cl: "cl \<in> set (overlapClusters thr ds)"
  from overlapClusters_members [OF cl]
  have ne: "cl \<noteq> []" and sub: "set cl \<subseteq> set ds"
    and ov: "\<forall>d \<in> set (tl cl). overlaps thr (hd cl) d"
    by auto
  show "bestOf cl \<in> set cl" using ne by (rule bestOf_mem)
  show "set cl \<subseteq> set ds" by (rule sub)
  show "overlaps thr (hd cl) d" if "d \<in> set (tl cl)" for d using ov that by simp
  show "confidence d \<le> confidence (bestOf cl)" if "d \<in> set cl" for d
    using that by (rule bestOf_max)
qed

theorem merger_emits_best_of_cluster_witness:
  "overlapClusters (3/10) [vestA, vestB, vestC] = [[vestA, vestB], [vestC]] \<and>
   mergeOverlappingDetections [vestA, vestB, vestC] (3/10) = [vestB, vestC] \<and>
   bestOf [vestA, vestB] = vestB \<and> confidence vestA \<le> confidence vestB \<and>
   overlaps (3/10) vestA vestB"
proof -
  have cls: "overlapClusters (3/10) [vestA, vestB, vestC] = [[vestA, vestB], [vestC]]"
    by (simp add: eval_defs)
  have best: "bestOf [vestA, vestB] = vestB" "bestOf [vestC] = vestC"
    by (simp_all add: eval_defs)
  have "confidence vestA \<le> confidence (bestOf [vestA, vestB]) \<and> overlaps (3/10) vestA vestB"
    using merger_emits_best_of_cluster [of "[vestA, vestB, vestC]" "3/10"]
    unfolding cls by simp
  moreover have "mergeOverlappingDetections [vestA, vestB, vestC] (3/10) = [vestB, vestC]"
    using merger_emits_best_of_cluster [of "[vestA, vestB, vestC]" "3/10"]
    unfolding cls by (simp add: best)
  ultimately show ?thesis using cls best by simp
qed

text \<open>
  C4, as the code has it.  The Merger of \<^verbatim>\<open>detection.js\<close> does not sort: the first
  candidate of the list as given seeds the first cluster, whatever its confidence, the
  best member of that cluster is emitted, and the walk goes on with the candidates left,
  in their order.  The descending sort comes afterwards, in
  \<^verbatim>\<open>filterAndMergeDetections\<close>.  The Merger of the second variant sorts first, so its
  output is that on the sorted list.
\<close>

theorem merger_seeds_in_list_order:
  "mergeOverlappingDetections (current # rest) thr
     = bestOf (current # filter (overlaps thr current) rest)
         # mergeOverlappingDetections (filter (\<lambda>d. \<not> overlaps thr current d) rest) thr \<and>
   sorted_wrt (\<lambda>a b. confidence a \<ge> confidence b) (filterAndMergeDetections ds) \<and>
   mergeOverlappingDetections_alt ds thr
     = mergeOverlappingDetections_alt (sortByConfidenceDesc ds) thr"
proof (intro conjI)
  show "mergeOverlappingDetections (current # rest) thr
     = bestOf (current # filter (overlaps thr current) rest)
         # mergeOverlappingDetections (filter (\<lambda>d. \<not> overlaps thr current d) rest) thr"
    by (simp add: merge_clusters)
  show "sorted_wrt (\<lambda>a b. confidence a \<ge> confidence b) (filterAndMergeDetections ds)"
    by (simp add: filterAndMergeDetections_def Let_def sortByConfidenceDesc_sorted)
  have "length (sortByConfidenceDesc ds) = length ds"
    by (simp add: sortByConfidenceDesc_def)
  then show "mergeOverlappingDetections_alt ds thr
     = mergeOverlappingDetections_alt (sortByConfidenceDesc ds) thr"
    by (simp add: mergeOverlappingDetections_alt_def sortByConfidenceDesc_idem)
qed

theorem merger_seeds_in_list_order_witness:
  "mergeOverlappingDetections [vestA, vestB, vestC] (3/10)
     = bestOf [vestA, vestB] # mergeOverlappingDetections [vestC] (3/10) \<and>
   bestOf [vestA, vestB] = vestB \<and> confidence vestA < confidence vestC"
proof -
  have f: "filter (overlaps (3/10) vestA) [vestB, vestC] = [vestB]"
    "filter (\<lambda>d. \<not> overlaps (3/10) vestA d) [vestB, vestC] = [vestC]"
    by (simp_all add: eval_defs)
  have "bestOf [vestA, vestB] = vestB" "confidence vestA < confidence vestC"
    by (simp_all add: eval_defs)
  then show ?thesis
    using merger_seeds_in_list_order [of vestA "[vestB, vestC]" "3/10" "[]"]
    unfolding f by simp
qed

theorem merger_does_not_sort_counterexample:
  "sortByConfidenceDesc [vestA, vestB, vestC] = [vestB, vestC, vestA] \<and>
   mergeOverlappingDetections [vestA, vestB, vestC] (3/10) = [vestB, vestC] \<and>
   mergeOverlappingDetections (sortByConfidenceDesc [vestA, vestB, vestC]) (3/10) = [vestB] \<and>
   overlapClusters (3/10) [vestA, vestB, vestC] = [[vestA, vestB], [vestC]]"
  by (simp add: eval_defs)

text \<open>
  C5, as the code has it.  The inner loop consumes a later candidate exactly when it is
  not yet consumed, carries the label of the seed, and its overlap with the seed is
  strictly greater than the threshold.  Two boxes of one label are collapsed into the
  better one when their overlap exceeds the threshold; at an overlap equal to the
  threshold both are kept.
\<close>

theorem consumed_iff_overlap_above_threshold:
  "snd (innerLoop thr current rest)
     = map (\<lambda>(d, u). (d, u \<or> (calculateOverlap (bbox current) (bbox d) > thr
                                 \<and> label current = label d))) rest \<and>
   fst (innerLoop thr current rest)
     = filter (\<lambda>d. calculateOverlap (bbox current) (bbox d) > thr \<and> label current = label d)
         (unused rest) \<and>
   (label a = label b \<longrightarrow>
      mergeOverlappingDetections [a, b] thr
        = (if calculateOverlap (bbox a) (bbox b) > thr then [better a b] else [a, b]))"
proof (intro conjI impI)
  show "snd (innerLoop thr current rest)
     = map (\<lambda>(d, u). (d, u \<or> (calculateOverlap (bbox current) (bbox d) > thr
                                 \<and> label current = label d))) rest"
    using innerLoop_snd [of thr current rest] by (simp add: overlaps_def)
  show "fst (innerLoop thr current rest)
     = filter (\<lambda>d. calculateOverlap (bbox current) (bbox d) > thr \<and> label current = label d)
         (unused rest)"
  proof -
    have "overlaps thr current
            = (\<lambda>d. calculateOverlap (bbox current) (bbox d) > thr \<and> label current = label d)"
      by (simp add: fun_eq_iff overlaps_def)
    then show ?thesis using innerLoop_fst [of thr current rest] by simp
  qed
  show "mergeOverlappingDetections [a, b] thr
        = (if calculateOverlap (bbox a) (bbox b) > thr then [better a b] else [a, b])"
    if "label a = label b"
    using that by (simp add: merge_clusters bestOf_def overlaps_def)
qed

theorem consumed_iff_overlap_above_threshold_witness:
  "label helmetWhole = label helmetStrip \<and>
   calculateOverlap (bbox helmetWhole) (bbox helmetStrip) = 3/10 \<and>
   mergeOverlappingDetections [helmetWhole, helmetStrip] (3/10) = [helmetWhole, helmetStrip] \<and>
   mergeOverlappingDetections [helmetWhole, helmetStrip] (29/100) = [helmetWhole]"
proof -
  have l: "label helmetWhole = label helmetStrip"
    and o: "calculateOverlap (bbox helmetWhole) (bbox helmetStrip) = 3/10"
    and b: "better helmetWhole helmetStrip = helmetWhole"
    by (simp_all add: eval_defs)
  show ?thesis
    using consumed_iff_overlap_above_threshold [of "3/10" helmetWhole "[]" helmetWhole helmetStrip]
      consumed_iff_overlap_above_threshold [of "29/100" helmetWhole "[]" helmetWhole helmetStrip]
    by (simp add: l o b)
qed

theorem threshold_overlap_not_merged_counterexample:
  "label helmetWhole = label helmetStrip \<and>
   calculateOverlap (bbox helmetWhole) (bbox helmetStrip) = 3/10 \<and>
   mergeOverlappingDetections [helmetWhole, helmetStrip] (3/10) = [helmetWhole, helmetStrip] \<and>
   filterAndMergeDetections [helmetWhole, helmetStrip] = [helmetWhole, helmetStrip]"
  by (simp add: eval_defs)



text \<open>
  C7.  Every detection the pipeline of \<^verbatim>\<open>detection.js\<close> returns, for any image data
  and any size, has its confidence and its four box fields in \<open>[0, 1]\<close>, and
  \<open>x + width\<close> and \<open>y + height\<close> at most 1.001.
\<close>

theorem pipeline_detections_in_range:
  "(\<forall>d \<in> set (detectInImageData data width height). inRange d) \<and>
   (\<forall>d \<in> set (detectPPE P imagePath). inRange d)"
proof (intro conjI ballI)
  show "inRange d" if "d \<in> set (detectInImageData data width height)" for d
    using that by (rule detectInImageData_inRange)
  show "inRange d" if "d \<in> set (detectPPE P imagePath)" for d
    using that detectPPE_cases [of P imagePath] detectInImageData_inRange by fastforce
qed


theorem pipeline_detections_in_range_witness:
  "detectInImageData yellowData 33 2 = [yellowHelmet] \<and>
   detectPPE yellowImage ''uploads/site.jpg'' = [yellowHelmet] \<and>
   inRange yellowHelmet"
proof -
  have "inRange yellowHelmet"
    using pipeline_detections_in_range [of yellowData 33 2 yellowImage "''uploads/site.jpg''"]
    by (simp add: yellow_pipeline)
  then show ?thesis by (simp add: yellow_pipeline yellow_detectPPE)
qed






text \<open>
  C10.  The final assembly only filters, suppresses and reorders: the output of
  \<^verbatim>\<open>filterAndMergeDetections\<close> is a sub-multiset of its input, so every detection it
  returns is one of the input detections with all fields unchanged.
\<close>

theorem assembly_returns_input_detections:
  "mset (filterAndMergeDetections ds) \<subseteq># mset ds \<and>
   set (filterAndMergeDetections ds) \<subseteq> set ds"
  by (simp add: filterAndMerge_mset filterAndMerge_set)

theorem assembly_returns_input_detections_witness:
  "mset [vestB, helmetWhole, vestC, helmetStrip, personWide]
     \<subseteq># mset [personWide, vestA, helmetStrip, vestB, faint, vestC, helmetWhole] \<and>
   filterAndMergeDetections [personWide, vestA, helmetStrip, vestB, faint, vestC, helmetWhole]
     = [vestB, helmetWhole, vestC, helmetStrip, personWide]"
proof -
  have e: "filterAndMergeDetections [personWide, vestA, helmetStrip, vestB, faint, vestC, helmetWhole]
             = [vestB, helmetWhole, vestC, helmetStrip, personWide]"
    by (simp add: eval_defs)
  show ?thesis
    using assembly_returns_input_detections
            [of "[personWide, vestA, helmetStrip, vestB, faint, vestC, helmetWhole]"]
    unfolding e by simp
qed

end
